theory Spec2Isabelle
  imports Complex_Main "HOL-Library.Sublist"
begin


section \<open>Python values and exceptions\<close>

text \<open>
  The two programs (\<^verbatim>\<open>app.py\<close>, the DOT variant, and \<^verbatim>\<open>autoergen.py\<close>, the structured
  variant) are Python scripts. A Python \<^verbatim>\<open>str\<close> is a sequence of Unicode code points and is
  modelled as the list of its code points, so that every string the programs can
  receive has its model. The literals of the programs are written \<open>str ''...''\<close>.

  Exceptions are values: a function that may raise returns \<open>py_error + 'a\<close>, with
  \<open>Inl\<close> the exception raised.
\<close>

type_synonym pystr = "nat list"

definition str :: "string \<Rightarrow> pystr" where
  "str s = map of_char s"

datatype py_error =
    KeyError pystr             \<comment> \<open>\<^verbatim>\<open>d[k]\<close> on a dict without the key \<open>k\<close>\<close>
  | TypeError                   \<comment> \<open>an operation on a value of the wrong type\<close>
  | AttributeError              \<comment> \<open>a method looked up on a value that has none of that name\<close>
  | IndexError                  \<comment> \<open>a list index out of range\<close>
  | PyException pystr          \<comment> \<open>\<^verbatim>\<open>raise Exception(msg)\<close>\<close>
  | LibraryError pystr         \<comment> \<open>any exception raised inside an external library\<close>

subsection \<open>String methods\<close>

text \<open>
  The characters \<^verbatim>\<open>str.strip()\<close> removes, those for which \<^verbatim>\<open>str.isspace\<close> holds: TAB, LF,
  VT, FF, CR, FS, GS, RS, US, space, U+0085, U+00A0, U+1680, U+2000 to U+200A, U+2028,
  U+2029, U+202F, U+205F and U+3000.
\<close>

definition str_isspace :: "nat \<Rightarrow> bool" where
  "str_isspace c =
     ((9 \<le> c \<and> c \<le> 13) \<or> (28 \<le> c \<and> c \<le> 32) \<or> c = 0x85 \<or> c = 0xA0 \<or> c = 0x1680 \<or>
      (0x2000 \<le> c \<and> c \<le> 0x200A) \<or> c = 0x2028 \<or> c = 0x2029 \<or> c = 0x202F \<or>
      c = 0x205F \<or> c = 0x3000)"

text \<open>\<^verbatim>\<open>s.strip()\<close>: whitespace removed at both ends.\<close>

definition str_strip :: "pystr \<Rightarrow> pystr" where
  "str_strip s = rev (dropWhile str_isspace (rev (dropWhile str_isspace s)))"

text \<open>\<^verbatim>\<open>s.startswith(p)\<close>.\<close>

definition str_startswith :: "pystr \<Rightarrow> pystr \<Rightarrow> bool" where
  "str_startswith s p = prefix p s"

text \<open>\<^verbatim>\<open>sub in s\<close> for strings: \<open>sub\<close> occurs in \<open>s\<close> as a contiguous substring.\<close>

fun str_contains :: "pystr \<Rightarrow> pystr \<Rightarrow> bool" where
  "str_contains [] sub = (sub = [])"
| "str_contains (c # cs) sub = (prefix sub (c # cs) \<or> str_contains cs sub)"

text \<open>
  \<^verbatim>\<open>s.split(sep)\<close> for a non-empty separator: the pieces between the non-overlapping
  occurrences of \<open>sep\<close>, found from the left. \<open>acc\<close> holds the current piece, reversed.
  (Python raises \<^verbatim>\<open>ValueError\<close> on an empty separator; the programs only split at the
  fence marker.)
\<close>

function str_split_aux :: "pystr \<Rightarrow> pystr \<Rightarrow> pystr \<Rightarrow> pystr list" where
  "str_split_aux sep acc [] = [rev acc]"
| "str_split_aux sep acc (c # cs) =
     (if sep \<noteq> [] \<and> prefix sep (c # cs)
      then rev acc # str_split_aux sep [] (drop (length sep) (c # cs))
      else str_split_aux sep (c # acc) cs)"
  by pat_completeness auto
termination
  by (relation "measure (\<lambda>(sep, acc, s). length s)") auto

definition str_split :: "pystr \<Rightarrow> pystr \<Rightarrow> pystr list" where
  "str_split s sep = str_split_aux sep [] s"

text \<open>
  \<^verbatim>\<open>s.replace(old, new)\<close> for a non-empty \<open>old\<close>: every non-overlapping occurrence, found
  from the left, is replaced.
\<close>

function str_replace :: "pystr \<Rightarrow> pystr \<Rightarrow> pystr \<Rightarrow> pystr" where
  "str_replace [] old new = []"
| "str_replace (c # cs) old new =
     (if old \<noteq> [] \<and> prefix old (c # cs)
      then new @ str_replace (drop (length old) (c # cs)) old new
      else c # str_replace cs old new)"
  by pat_completeness auto
termination
  by (relation "measure (\<lambda>(s, old, new). length s)") auto

text \<open>\<^verbatim>\<open>sep.join(xs)\<close>.\<close>

fun str_join :: "pystr \<Rightarrow> pystr list \<Rightarrow> pystr" where
  "str_join sep [] = []"
| "str_join sep [x] = x"
| "str_join sep (x # y # ys) = x @ sep @ str_join sep (y # ys)"

text \<open>The markdown fence marker, three backticks.\<close>

definition fence :: pystr where
  "fence = (str ''```'')"

section \<open>The generation service\<close>

text \<open>
  The provider (the Gemini API behind \<^verbatim>\<open>generate_content\<close>) is outside the repository.
  It is a parameter: a function from the request to either the exception the call raises
  or the \<^verbatim>\<open>text\<close> of the response, which may be \<^verbatim>\<open>None\<close>. \<open>temperature\<close> is \<open>None\<close>
  when the request carries no generation config.
\<close>

record gen_request =
  model_name :: pystr
  system_instruction :: pystr
  contents :: pystr
  temperature :: "real option"

type_synonym provider = "gen_request \<Rightarrow> py_error + pystr option"

section \<open>JSON values\<close>

text \<open>
  What \<^verbatim>\<open>json.loads\<close> returns: \<^verbatim>\<open>None\<close>, a bool, an int, a float, a str, a list or a
  dict with string keys. A dict is an association list in insertion order with distinct
  keys, looked up with \<^const>\<open>map_of\<close>.
\<close>

datatype json =
    JNull
  | JBool bool
  | JInt int
  | JFloat real
  | JStr pystr
  | JList "json list"
  | JDict "(pystr \<times> json) list"

text \<open>Sequencing of operations that may raise: the first exception ends the computation.\<close>

definition andthen :: "py_error + 'a \<Rightarrow> ('a \<Rightarrow> py_error + 'b) \<Rightarrow> py_error + 'b" where
  "andthen m f = (case m of Inl e \<Rightarrow> Inl e | Inr x \<Rightarrow> f x)"

text \<open>\<^verbatim>\<open>x.get(key, default)\<close>: only a dict has the method.\<close>

fun dict_get :: "json \<Rightarrow> pystr \<Rightarrow> json \<Rightarrow> py_error + json" where
  "dict_get (JDict d) key dflt = Inr (case map_of d key of None \<Rightarrow> dflt | Some v \<Rightarrow> v)"
| "dict_get _ key dflt = Inl AttributeError"

text \<open>
  \<^verbatim>\<open>x[key]\<close> with a string key: a dict without the key raises \<^verbatim>\<open>KeyError\<close>; a list or
  a str wants an integer index and any other value is not subscriptable, both
  \<^verbatim>\<open>TypeError\<close>.
\<close>

fun getitem :: "json \<Rightarrow> pystr \<Rightarrow> py_error + json" where
  "getitem (JDict d) key = (case map_of d key of None \<Rightarrow> Inl (KeyError key) | Some v \<Rightarrow> Inr v)"
| "getitem _ key = Inl TypeError"

text \<open>
  \<^verbatim>\<open>for x in v\<close>: the elements of a list, the characters of a str, the keys of a dict;
  any other value is not iterable.
\<close>

fun iterate :: "json \<Rightarrow> py_error + json list" where
  "iterate (JList xs) = Inr xs"
| "iterate (JStr s) = Inr (map (\<lambda>c. JStr [c]) s)"
| "iterate (JDict d) = Inr (map (\<lambda>(k, v). JStr k) d)"
| "iterate _ = Inl TypeError"

text \<open>Truth value of a JSON value in a condition.\<close>

fun truthy :: "json \<Rightarrow> bool" where
  "truthy JNull = False"
| "truthy (JBool b) = b"
| "truthy (JInt i) = (i \<noteq> 0)"
| "truthy (JFloat x) = (x \<noteq> 0)"
| "truthy (JStr s) = (s \<noteq> [])"
| "truthy (JList xs) = (xs \<noteq> [])"
| "truthy (JDict d) = (d \<noteq> [])"

text \<open>
  \<^verbatim>\<open>v.lower()\<close>: only a str has the method. The case mapping itself belongs to Python
  (it follows the Unicode tables, and may change the length of the text): it is the
  parameter \<open>lower\<close>.
\<close>

fun lower_method :: "(pystr \<Rightarrow> pystr) \<Rightarrow> json \<Rightarrow> py_error + pystr" where
  "lower_method lower (JStr s) = Inr (lower s)"
| "lower_method lower _ = Inl AttributeError"

text \<open>
  A replacement field \<^verbatim>\<open>{v}\<close> of an f-string: a str is inserted as it is. The text Python
  builds for any other value (\<^verbatim>\<open>str(v)\<close>) is the parameter \<open>fmt\<close>.
\<close>

fun format_value :: "(json \<Rightarrow> pystr) \<Rightarrow> json \<Rightarrow> pystr" where
  "format_value fmt (JStr s) = s"
| "format_value fmt v = fmt v"

section \<open>The graph-description library and the user interface\<close>

text \<open>
  A \<^verbatim>\<open>graphviz.Digraph\<close> is modelled by what the program puts into it: the comment, the
  graph attributes and the statements of the body in the order they were added. A node
  statement has a name, a label and attributes; an edge statement a tail, a head and an
  optional label. The library quotes names and labels: the quoting of a node name or of
  a label rejects a value that is not a str with \<^verbatim>\<open>TypeError\<close>, the quoting of the tail and
  of the head of an edge, which first splits off a port, with \<^verbatim>\<open>AttributeError\<close>; a label
  \<^verbatim>\<open>None\<close> means no label. The tail and the head are quoted before the label.
\<close>

datatype statement =
    Node pystr pystr "(pystr \<times> pystr) list"
  | Edge pystr pystr "pystr option"

record digraph =
  comment :: pystr
  graph_attr :: "(pystr \<times> pystr) list"
  body :: "statement list"

definition Digraph :: "pystr \<Rightarrow> digraph" where
  "Digraph c = \<lparr>comment = c, graph_attr = [], body = []\<rparr>"

definition attr :: "digraph \<Rightarrow> (pystr \<times> pystr) list \<Rightarrow> digraph" where
  "attr dot kvs = dot\<lparr>graph_attr := graph_attr dot @ kvs\<rparr>"

fun node :: "digraph \<Rightarrow> json \<Rightarrow> json \<Rightarrow> (pystr \<times> pystr) list \<Rightarrow> py_error + digraph" where
  "node dot (JStr name) (JStr label) attrs = Inr (dot\<lparr>body := body dot @ [Node name label attrs]\<rparr>)"
| "node dot _ _ attrs = Inl TypeError"

fun edge :: "digraph \<Rightarrow> json \<Rightarrow> json \<Rightarrow> json \<Rightarrow> py_error + digraph" where
  "edge dot (JStr tail_name) (JStr head_name) (JStr label) =
     Inr (dot\<lparr>body := body dot @ [Edge tail_name head_name (Some label)]\<rparr>)"
| "edge dot (JStr tail_name) (JStr head_name) JNull =
     Inr (dot\<lparr>body := body dot @ [Edge tail_name head_name None]\<rparr>)"
| "edge dot (JStr tail_name) (JStr head_name) _ = Inl TypeError"
| "edge dot _ _ _ = Inl AttributeError"

text \<open>
  What \<^verbatim>\<open>st.graphviz_chart\<close> is given: a \<^verbatim>\<open>Digraph\<close> object (structured variant) or DOT
  source text (DOT variant). The call belongs to the user-interface library and is a
  parameter: it returns (\<open>None\<close>) or raises. It hands the chart to the page; the layout is
  computed there, outside the program.
\<close>

datatype chart = Chart_digraph digraph | Chart_source pystr

type_synonym engine = "chart \<Rightarrow> py_error option"

text \<open>
  The steps of a database connection (\<^verbatim>\<open>psycopg2\<close>) that can fail, and the effects of
  the programs on the outside, in the order they happen: calls of the provider, the
  messages, charts and code shown to the user (\<^verbatim>\<open>st.error(f"prefix{e}")\<close> is recorded as the
  prefix and the exception; titles, headers, spinners and columns are left out), what is
  printed, and the calls made on the database connection.
\<close>

datatype db_step = Connect | Insert_user | Insert_project | Insert_log | Commit

datatype effect =
    Generate gen_request
  | St_warning pystr
  | St_error pystr "py_error option"
  | St_graphviz_chart chart
  | St_code pystr pystr
  | Print py_error
  | Db db_step
  | Db_close

section \<open>The DOT variant: \<^verbatim>\<open>app.py\<close>\<close>

subsection \<open>The database\<close>

text \<open>
  Modelled from the spec: the tables of the relational store, whose schema is not among
  the sources: \<^verbatim>\<open>users(id, email unique, password_hash)\<close>,
  \<^verbatim>\<open>projects(id, user_id, name, description, created_at)\<close> and
  \<^verbatim>\<open>logs(id, project_id, user_prompt, llm_response, execution_time, created_at)\<close>. A table
  is the list of its rows in insertion order, which stands for the order of
  \<^verbatim>\<open>created_at\<close>; the id of a log row is not kept. A new id is one more than the largest
  id of the table.
\<close>

record user_row =
  u_id :: nat
  u_email :: pystr
  u_password_hash :: pystr

record project_row =
  p_id :: nat
  p_user_id :: nat
  p_name :: pystr
  p_description :: pystr

record log_row =
  l_project_id :: nat
  l_user_prompt :: pystr
  l_llm_response :: pystr
  l_execution_time :: real

record database =
  users :: "user_row list"
  projects :: "project_row list"
  logs :: "log_row list"

definition next_id :: "nat list \<Rightarrow> nat" where
  "next_id ids = Suc (fold max ids 0)"

text \<open>
  A connection works on a copy of the committed database; \<^verbatim>\<open>commit\<close> makes the copy the
  committed database, and \<^verbatim>\<open>close\<close> without a commit drops it. Each step on the
  connection may fail for a reason of the server or the network: \<open>faults step\<close> is the
  exception raised then, \<open>None\<close> when the step runs. A failed commit leaves the committed
  database as it was, and \<^verbatim>\<open>close\<close> does not fail.
\<close>

type_synonym db_faults = "db_step \<Rightarrow> py_error option"

text \<open>
  \<^verbatim>\<open>INSERT INTO users (email, password_hash) VALUES (%s, %s) RETURNING id\<close>: rejected when
  the email is already there, otherwise the row is added and its id returned.
\<close>

definition insert_user ::
  "db_faults \<Rightarrow> database \<Rightarrow> pystr \<Rightarrow> pystr \<Rightarrow> py_error + (database \<times> nat)" where
  "insert_user faults work email password_hash =
     (case faults Insert_user of
        Some e \<Rightarrow> Inl e
      | None \<Rightarrow>
          if email \<in> set (map u_email (users work)) then Inl (LibraryError (str ''UniqueViolation''))
          else (let new_id = next_id (map u_id (users work)) in
                Inr (work\<lparr>users := users work @
                       [\<lparr>u_id = new_id, u_email = email, u_password_hash = password_hash\<rparr>]\<rparr>,
                     new_id)))"

text \<open>\<^verbatim>\<open>INSERT INTO projects (user_id, name, description) VALUES (%s, %s, %s)\<close>.\<close>

definition insert_project ::
  "db_faults \<Rightarrow> database \<Rightarrow> nat \<Rightarrow> pystr \<Rightarrow> pystr \<Rightarrow> py_error + database" where
  "insert_project faults work user name description =
     (case faults Insert_project of
        Some e \<Rightarrow> Inl e
      | None \<Rightarrow>
          Inr (work\<lparr>projects := projects work @
                 [\<lparr>p_id = next_id (map p_id (projects work)), p_user_id = user,
                   p_name = name, p_description = description\<rparr>]\<rparr>))"

text \<open>
  The \<^verbatim>\<open>INSERT INTO logs ... SELECT id, %s, %s, %s FROM projects WHERE user_id = %s
  ORDER BY created_at LIMIT 1\<close> of the generate branch: one log row for the oldest project
  of the user, none when the user has no project.
\<close>

definition insert_log ::
  "db_faults \<Rightarrow> database \<Rightarrow> pystr \<Rightarrow> pystr \<Rightarrow> real \<Rightarrow> nat option \<Rightarrow> py_error + database" where
  "insert_log faults work user_prompt llm_response execution_time user =
     (case faults Insert_log of
        Some e \<Rightarrow> Inl e
      | None \<Rightarrow>
          (case filter (\<lambda>p. Some (p_user_id p) = user) (projects work) of
             [] \<Rightarrow> Inr work
           | p # _ \<Rightarrow>
               Inr (work\<lparr>logs := logs work @
                      [\<lparr>l_project_id = p_id p, l_user_prompt = user_prompt,
                        l_llm_response = llm_response, l_execution_time = execution_time\<rparr>]\<rparr>)))"

text \<open>
  \<^verbatim>\<open>get_connection\<close>: the connection is there (\<open>True\<close>), or the error is shown and the
  caller gets \<^verbatim>\<open>None\<close> (\<open>False\<close>).
\<close>

definition get_connection :: "db_faults \<Rightarrow> effect list \<times> bool" where
  "get_connection faults =
     (case faults Connect of
        None \<Rightarrow> ([Db Connect], True)
      | Some e \<Rightarrow> ([Db Connect, St_error (str ''DB Error: '') (Some e)], False))"

text \<open>
  \<^verbatim>\<open>create_user\<close>. \<^verbatim>\<open>hashlib.sha256(...).hexdigest()\<close> is the parameter \<open>hash_password\<close>.
  The result is the effects, the value returned and the committed database after the
  call. Both inserts and the commit are inside the \<^verbatim>\<open>try\<close>: an exception of any of them
  is printed and answered with \<^verbatim>\<open>False\<close>, and the \<^verbatim>\<open>finally\<close> closes the connection.
\<close>

definition create_user ::
  "db_faults \<Rightarrow> (pystr \<Rightarrow> pystr) \<Rightarrow> database \<Rightarrow> pystr \<Rightarrow> pystr \<Rightarrow>
   effect list \<times> bool \<times> database" where
  "create_user faults hash_password d email password =
     (case get_connection faults of
        (effs, False) \<Rightarrow> (effs, False, d)
      | (effs, True) \<Rightarrow>
          (case insert_user faults d email (hash_password password) of
             Inl e \<Rightarrow> (effs @ [Db Insert_user, Print e, Db_close], False, d)
           | Inr (work, user) \<Rightarrow>
               (case insert_project faults work user
                       (str ''My First ERD Project'') (str ''Default workspace'') of
                  Inl e \<Rightarrow>
                    (effs @ [Db Insert_user, Db Insert_project, Print e, Db_close], False, d)
                | Inr work \<Rightarrow>
                    (case faults Commit of
                       Some e \<Rightarrow>
                         (effs @ [Db Insert_user, Db Insert_project, Db Commit, Print e, Db_close],
                          False, d)
                     | None \<Rightarrow>
                         (effs @ [Db Insert_user, Db Insert_project, Db Commit, Db_close],
                          True, work)))))"

subsection \<open>The generation client\<close>

definition MODEL_NAME :: pystr where
  "MODEL_NAME = (str ''gemini-3-flash-preview'')"

definition dot_system_instruction :: pystr where
  "dot_system_instruction =
     (str ''You are a senior database architect. '') @
     (str ''Convert the user's description into a VALID Graphviz DOT string '') @
     (str ''for an ER diagram. '') @
     (str ''Use box shapes for entities. '') @
     (str ''No markdown. No explanations. '') @
     (str ''Return ONLY raw DOT code.'')"

definition dot_request :: "pystr \<Rightarrow> gen_request" where
  "dot_request prompt_text =
     \<lparr>model_name = MODEL_NAME, system_instruction = dot_system_instruction,
      contents = prompt_text, temperature = Some 0.2\<rparr>"

text \<open>
  Lines 109 to 117 of \<^verbatim>\<open>call_gemini_for_dot\<close>: the clean-up of the response text.
  \<^verbatim>\<open>content.split("```")[1]\<close> is an indexing, so the model has its \<^verbatim>\<open>IndexError\<close>.
\<close>

definition clean_dot :: "pystr \<Rightarrow> py_error + pystr" where
  "clean_dot response_text =
     (let content = str_strip response_text in
      if str_contains content fence then
        (case str_split content fence of
           _ # piece # _ \<Rightarrow>
             Inr (str_strip (if str_startswith piece (str ''dot'') then drop 3 piece else piece))
         | _ \<Rightarrow> Inl IndexError)
      else Inr (str_strip content))"

text \<open>
  \<^verbatim>\<open>call_gemini_for_dot\<close>, the body under the cache decorator. \<open>duration\<close> is the
  difference of the two readings of \<^verbatim>\<open>time.time()\<close>. An exception of the provider
  propagates, a falsy response text (\<^verbatim>\<open>None\<close> or the empty string) raises
  \<^verbatim>\<open>Exception("Gemini returned an empty response.")\<close>, anything else is cleaned and
  returned with the duration.
\<close>

definition call_gemini_for_dot ::
  "provider \<Rightarrow> real \<Rightarrow> pystr \<Rightarrow> effect list \<times> (py_error + (pystr \<times> real))" where
  "call_gemini_for_dot provider duration prompt_text =
     ([Generate (dot_request prompt_text)],
      case provider (dot_request prompt_text) of
        Inl e \<Rightarrow> Inl e
      | Inr response_text \<Rightarrow>
          (case response_text of
             None \<Rightarrow> Inl (PyException (str ''Gemini returned an empty response.''))
           | Some t \<Rightarrow>
               if t = [] then Inl (PyException (str ''Gemini returned an empty response.''))
               else andthen (clean_dot t) (\<lambda>content. Inr (content, duration))))"

text \<open>
  \<^verbatim>\<open>@st.cache_data(ttl=3600)\<close>: \<open>cache\<close> holds the results not yet expired, by prompt text.
  A hit returns the stored result and leaves the body alone; a result is stored only when
  the body returned.
\<close>

type_synonym dot_cache = "pystr \<rightharpoonup> pystr \<times> real"

definition cached_call_gemini_for_dot ::
  "dot_cache \<Rightarrow> provider \<Rightarrow> real \<Rightarrow> pystr \<Rightarrow>
   effect list \<times> (py_error + (pystr \<times> real)) \<times> dot_cache" where
  "cached_call_gemini_for_dot cache provider duration prompt_text =
     (case cache prompt_text of
        Some result \<Rightarrow> ([], Inr result, cache)
      | None \<Rightarrow>
          (case call_gemini_for_dot provider duration prompt_text of
             (effs, Inl e) \<Rightarrow> (effs, Inl e, cache)
           | (effs, Inr result) \<Rightarrow> (effs, Inr result, cache(prompt_text \<mapsto> result))))"

subsection \<open>The main page\<close>

text \<open>
  What a run of the script reads and writes: the session state (\<open>logged_in\<close> is the truth
  value of the session's flag), the cache of the decorator and the committed database.
\<close>

record app_state =
  logged_in :: bool
  user_id :: "nat option"
  last_dot :: "pystr option"
  cached :: dot_cache
  db :: database

text \<open>
  Lines 174 to 198, the generate branch. \<open>button\<close> is the value of
  \<^verbatim>\<open>st.button("Generate Diagram")\<close>, \<^verbatim>\<open>json.dumps\<close> is the parameter \<open>dumps\<close>. The call of
  the client and the logging are in one \<^verbatim>\<open>try\<close>, whose handler shows the error.
\<close>

definition generate_branch ::
  "provider \<Rightarrow> real \<Rightarrow> (pystr \<Rightarrow> pystr) \<Rightarrow> db_faults \<Rightarrow> bool \<Rightarrow> pystr \<Rightarrow> app_state \<Rightarrow>
   effect list \<times> app_state" where
  "generate_branch provider duration dumps faults button user_input s =
     (if button \<and> str_strip user_input \<noteq> [] then
        (case cached_call_gemini_for_dot (cached s) provider duration user_input of
           (effs, Inl e, cache) \<Rightarrow>
             (effs @ [St_error (str ''Error calling Gemini: '') (Some e)], s\<lparr>cached := cache\<rparr>)
         | (effs, Inr (dot, exec_time), cache) \<Rightarrow>
             (let s = s\<lparr>cached := cache, last_dot := Some dot\<rparr> in
              case get_connection faults of
                (conn_effs, False) \<Rightarrow> (effs @ conn_effs, s)
              | (conn_effs, True) \<Rightarrow>
                  (case insert_log faults (db s) user_input (dumps dot) exec_time (user_id s) of
                     Inl e \<Rightarrow>
                       (effs @ conn_effs @
                          [Db Insert_log, St_error (str ''Error calling Gemini: '') (Some e)], s)
                   | Inr work \<Rightarrow>
                       (case faults Commit of
                          Some e \<Rightarrow>
                            (effs @ conn_effs @
                               [Db Insert_log, Db Commit,
                                St_error (str ''Error calling Gemini: '') (Some e)], s)
                        | None \<Rightarrow>
                            (effs @ conn_effs @ [Db Insert_log, Db Commit, Db_close],
                             s\<lparr>db := work\<rparr>)))))
      else ([], s))"

text \<open>
  Lines 200 to 212, the render block. \<open>edited\<close> is the content of the text area and
  \<open>update\<close> the value of \<^verbatim>\<open>st.button("Update Diagram")\<close>. The chart is drawn inside a
  \<^verbatim>\<open>try\<close> whose handler shows the error.
\<close>

definition render_block :: "engine \<Rightarrow> pystr \<Rightarrow> bool \<Rightarrow> app_state \<Rightarrow> effect list \<times> app_state" where
  "render_block engine edited update s =
     (case last_dot s of
        None \<Rightarrow> ([], s)
      | Some dot \<Rightarrow>
          if dot = [] then ([], s)
          else (let shown = (if update then edited else dot);
                    s = s\<lparr>last_dot := Some shown\<rparr> in
                case engine (Chart_source shown) of
                  None \<Rightarrow> ([St_graphviz_chart (Chart_source shown)], s)
                | Some e \<Rightarrow> ([St_error (str ''Graphviz rendering error: '') (Some e)], s)))"

text \<open>Lines 170 to 215: the main page of a logged-in session.\<close>

definition main_app ::
  "provider \<Rightarrow> real \<Rightarrow> (pystr \<Rightarrow> pystr) \<Rightarrow> db_faults \<Rightarrow> engine \<Rightarrow>
   bool \<Rightarrow> pystr \<Rightarrow> pystr \<Rightarrow> bool \<Rightarrow> app_state \<Rightarrow> effect list \<times> app_state" where
  "main_app provider duration dumps faults engine button user_input edited update s =
     (if logged_in s then
        (case generate_branch provider duration dumps faults button user_input s of
           (effs, s) \<Rightarrow>
             (case render_block engine edited update s of
                (effs', s) \<Rightarrow> (effs @ effs', s)))
      else ([], s))"

section \<open>The structured variant: \<^verbatim>\<open>autoergen.py\<close>\<close>

definition er_system_instruction :: pystr where
  "er_system_instruction =
     (str ''You are an expert database architect. Always return output in valid JSON format.'')"

definition er_prompt :: "pystr \<Rightarrow> pystr" where
  \<open>er_prompt prompt_text =
     (str ''\<newline>    Extract entities and relationships from the following database description:\<newline>'') @
     (str ''    "'') @ prompt_text @ (str ''"\<newline>'') @
     (str ''\<newline>'') @
     (str ''    Return as JSON with this exact structure:\<newline>'') @
     (str ''    {\<newline>'') @
     (str ''        "entities": ["Entity1", "Entity2"],\<newline>'') @
     (str ''        "relationships": [\<newline>'') @
     (str ''            {"from": "Entity1", "to": "Entity2", "relation": "description"}\<newline>'') @
     (str ''        ]\<newline>'') @
     (str ''    }\<newline>'') @
     (str ''    '')\<close>

definition er_request :: "pystr \<Rightarrow> gen_request" where
  "er_request prompt_text =
     \<lparr>model_name = (str ''gemini-2.5-flash-lite''), system_instruction = er_system_instruction,
      contents = er_prompt prompt_text, temperature = None\<rparr>"

text \<open>The value returned when anything in the \<^verbatim>\<open>try\<close> block raised.\<close>

definition empty_er_spec :: json where
  "empty_er_spec = JDict [((str ''entities''), JList []), ((str ''relationships''), JList [])]"

text \<open>Line 43: the clean-up of the response text.\<close>

definition clean_json :: "pystr \<Rightarrow> pystr" where
  "clean_json response_text =
     str_replace (str_replace (str_strip response_text) (fence @ (str ''json'')) []) fence []"

text \<open>
  \<^verbatim>\<open>generate_er_spec\<close>. \<^verbatim>\<open>json.loads\<close> is the parameter \<open>loads\<close>: the parsed value or the
  exception raised. \<^verbatim>\<open>response.text.strip()\<close> on a response whose text is \<^verbatim>\<open>None\<close>
  raises \<^verbatim>\<open>AttributeError\<close>. Every exception of the \<^verbatim>\<open>try\<close> block is caught, reported
  with \<^verbatim>\<open>st.error\<close> and answered with the empty specification; a parsed value is
  returned as it is.
\<close>

definition generate_er_spec ::
  "provider \<Rightarrow> (pystr \<Rightarrow> py_error + json) \<Rightarrow> pystr \<Rightarrow> effect list \<times> json" where
  "generate_er_spec provider loads prompt_text =
     (let attempt =
            andthen (provider (er_request prompt_text)) (\<lambda>response_text.
            andthen (case response_text of None \<Rightarrow> Inl AttributeError | Some t \<Rightarrow> Inr (clean_json t))
              (\<lambda>raw_text. loads raw_text))
      in case attempt of
           Inr er_data \<Rightarrow> ([Generate (er_request prompt_text)], er_data)
         | Inl e \<Rightarrow>
             ([Generate (er_request prompt_text),
               St_error (str ''Failed to process with Gemini: '') (Some e)], empty_er_spec))"

subsection \<open>The diagram renderer\<close>

definition entity_attrs :: "(pystr \<times> pystr) list" where
  "entity_attrs = [((str ''shape''), (str ''box'')), ((str ''style''), (str ''filled'')), ((str ''color''), (str ''lightblue''))]"

text \<open>The two loops of \<^verbatim>\<open>create_er_diagram\<close>, over the elements already iterated.\<close>

fun add_entities :: "json list \<Rightarrow> digraph \<Rightarrow> py_error + digraph" where
  "add_entities [] dot = Inr dot"
| "add_entities (entity # entities) dot =
     andthen (node dot entity entity entity_attrs) (add_entities entities)"

fun add_relationships :: "json list \<Rightarrow> digraph \<Rightarrow> py_error + digraph" where
  "add_relationships [] dot = Inr dot"
| "add_relationships (rel # rels) dot =
     andthen (getitem rel (str ''from'')) (\<lambda>tail_name.
     andthen (getitem rel (str ''to'')) (\<lambda>head_name.
     andthen (dict_get rel (str ''relation'') (JStr [])) (\<lambda>label.
     andthen (edge dot tail_name head_name label) (add_relationships rels))))"

definition create_er_diagram :: "json \<Rightarrow> py_error + digraph" where
  "create_er_diagram er_data =
     (let dot = attr (Digraph (str ''ER Diagram'')) [((str ''rankdir''), (str ''LR''))] in
      andthen (dict_get er_data (str ''entities'') (JList [])) (\<lambda>entities.
      andthen (iterate entities) (\<lambda>entities.
      andthen (add_entities entities dot) (\<lambda>dot.
      andthen (dict_get er_data (str ''relationships'') (JList [])) (\<lambda>relationships.
      andthen (iterate relationships) (\<lambda>relationships.
      add_relationships relationships dot))))))"

subsection \<open>The schema synthesizer\<close>

definition create_table_stmt :: "(json \<Rightarrow> pystr) \<Rightarrow> json \<Rightarrow> pystr" where
  "create_table_stmt fmt entity =
     (str ''CREATE TABLE '') @ format_value fmt entity @
     (str '' (\<newline>    id INT PRIMARY KEY,\<newline>    name VARCHAR(100)\<newline>);'')"

text \<open>
  The statement of one relationship. The replacement fields are evaluated from left to
  right: \<^verbatim>\<open>rel['from']\<close>, \<^verbatim>\<open>rel['relation']\<close>, \<^verbatim>\<open>rel['to']\<close>, then \<^verbatim>\<open>rel['from']\<close>,
  \<^verbatim>\<open>rel['to'].lower()\<close> and \<^verbatim>\<open>rel['to']\<close> again.
\<close>

definition alter_table_stmt ::
  "(pystr \<Rightarrow> pystr) \<Rightarrow> (json \<Rightarrow> pystr) \<Rightarrow> json \<Rightarrow> py_error + pystr" where
  "alter_table_stmt lower fmt rel =
     andthen (getitem rel (str ''from'')) (\<lambda>from_name.
     andthen (getitem rel (str ''relation'')) (\<lambda>relation.
     andthen (getitem rel (str ''to'')) (\<lambda>to_name.
     andthen (lower_method lower to_name) (\<lambda>to_lower.
       Inr ((str ''-- '') @ format_value fmt from_name @ (str '' '') @ format_value fmt relation @ (str '' '') @
              format_value fmt to_name @ (str ''\<newline>'') @
            (str ''ALTER TABLE '') @ format_value fmt from_name @ (str '' ADD COLUMN '') @ to_lower @
              (str ''_id INT REFERENCES '') @ format_value fmt to_name @ (str ''(id);''))))))"

fun sql_entities :: "(json \<Rightarrow> pystr) \<Rightarrow> json list \<Rightarrow> pystr list \<Rightarrow> pystr list" where
  "sql_entities fmt [] sql_statements = sql_statements"
| "sql_entities fmt (entity # entities) sql_statements =
     sql_entities fmt entities (sql_statements @ [create_table_stmt fmt entity])"

fun sql_relationships ::
  "(pystr \<Rightarrow> pystr) \<Rightarrow> (json \<Rightarrow> pystr) \<Rightarrow> json list \<Rightarrow> pystr list \<Rightarrow>
   py_error + pystr list" where
  "sql_relationships lower fmt [] sql_statements = Inr sql_statements"
| "sql_relationships lower fmt (rel # rels) sql_statements =
     andthen (alter_table_stmt lower fmt rel) (\<lambda>stmt.
       sql_relationships lower fmt rels (sql_statements @ [stmt]))"

definition generate_sql_schema ::
  "(pystr \<Rightarrow> pystr) \<Rightarrow> (json \<Rightarrow> pystr) \<Rightarrow> json \<Rightarrow> py_error + pystr" where
  "generate_sql_schema lower fmt er_data =
     andthen (dict_get er_data (str ''entities'') (JList [])) (\<lambda>entities.
     andthen (iterate entities) (\<lambda>entities.
       let sql_statements = sql_entities fmt entities [] in
       andthen (dict_get er_data (str ''relationships'') (JList [])) (\<lambda>relationships.
       andthen (iterate relationships) (\<lambda>relationships.
       andthen (sql_relationships lower fmt relationships sql_statements) (\<lambda>sql_statements.
         Inr (str_join (str ''\<newline>\<newline>'') sql_statements))))))"

subsection \<open>The handler of the Generate Visualization button\<close>

text \<open>
  Lines 87 to 106. \<open>button\<close> is the value of \<^verbatim>\<open>st.button("Generate Visualization")\<close>.
  Nothing here is inside a \<^verbatim>\<open>try\<close>: an exception of \<^verbatim>\<open>er_data["entities"]\<close>, of the
  renderer, of the chart or of the schema synthesizer leaves the handler, and is the
  second component of the result.
\<close>

definition generate_visualization ::
  "provider \<Rightarrow> (pystr \<Rightarrow> py_error + json) \<Rightarrow> (pystr \<Rightarrow> pystr) \<Rightarrow> (json \<Rightarrow> pystr) \<Rightarrow>
   engine \<Rightarrow> bool \<Rightarrow> pystr \<Rightarrow> effect list \<times> py_error option" where
  "generate_visualization provider loads lower fmt engine button user_input =
     (if \<not> button then ([], None)
      else if str_strip user_input = [] then ([St_warning (str ''Please enter a description.'')], None)
      else
        (case generate_er_spec provider loads user_input of
           (effs, er_data) \<Rightarrow>
             (case getitem er_data (str ''entities'') of
                Inl e \<Rightarrow> (effs, Some e)
              | Inr entities \<Rightarrow>
                  if truthy entities then
                    (case create_er_diagram er_data of
                       Inl e \<Rightarrow> (effs, Some e)
                     | Inr dot \<Rightarrow>
                         (case engine (Chart_digraph dot) of
                            Some e \<Rightarrow> (effs, Some e)
                          | None \<Rightarrow>
                              (case generate_sql_schema lower fmt er_data of
                                 Inl e \<Rightarrow> (effs @ [St_graphviz_chart (Chart_digraph dot)], Some e)
                               | Inr sql \<Rightarrow>
                                   (effs @ [St_graphviz_chart (Chart_digraph dot),
                                            St_code sql (str ''sql'')], None))))
                  else
                    (effs @ [St_error (str ''Could not extract data. Try more descriptive text.'') None],
                     None))))"

section \<open>The ER Specification, as the specification describes it\<close>

text \<open>
  The shape the prompt asks the provider for: a dict whose \<^verbatim>\<open>entities\<close> is a list of
  strings and whose \<^verbatim>\<open>relationships\<close> is a list of dicts with the strings \<^verbatim>\<open>from\<close>,
  \<^verbatim>\<open>to\<close> and \<^verbatim>\<open>relation\<close>. These definitions are not code of the programs: they state
  which JSON values are ER Specifications, and read the names out of one, so that the
  properties of the renderer and of the synthesizer can be stated.
\<close>

fun is_str :: "json \<Rightarrow> bool" where
  "is_str (JStr s) = True"
| "is_str _ = False"

fun the_str :: "json \<Rightarrow> pystr" where
  "the_str (JStr s) = s"
| "the_str _ = []"

fun field :: "json \<Rightarrow> pystr \<Rightarrow> json option" where
  "field (JDict d) key = map_of d key"
| "field _ key = None"

definition has_str :: "json \<Rightarrow> pystr \<Rightarrow> bool" where
  "has_str v key = (case field v key of Some (JStr s) \<Rightarrow> True | _ \<Rightarrow> False)"

definition str_field :: "json \<Rightarrow> pystr \<Rightarrow> pystr" where
  "str_field v key = (case field v key of Some (JStr s) \<Rightarrow> s | _ \<Rightarrow> [])"

definition is_relationship :: "json \<Rightarrow> bool" where
  "is_relationship rel = (has_str rel (str ''from'') \<and> has_str rel (str ''to'') \<and> has_str rel (str ''relation''))"

text \<open>A relationship entry whose \<^verbatim>\<open>relation\<close> may be missing.\<close>

definition is_unlabelled_relationship :: "json \<Rightarrow> bool" where
  "is_unlabelled_relationship rel =
     (has_str rel (str ''from'') \<and> has_str rel (str ''to'') \<and>
      (field rel (str ''relation'') = None \<or> has_str rel (str ''relation'')))"

definition entities_of :: "json \<Rightarrow> json list" where
  "entities_of er_data = (case field er_data (str ''entities'') of Some (JList es) \<Rightarrow> es | _ \<Rightarrow> [])"

definition relationships_of :: "json \<Rightarrow> json list" where
  "relationships_of er_data =
     (case field er_data (str ''relationships'') of Some (JList rs) \<Rightarrow> rs | _ \<Rightarrow> [])"

definition has_lists :: "json \<Rightarrow> bool" where
  "has_lists er_data =
     (case (field er_data (str ''entities''), field er_data (str ''relationships'')) of
        (Some (JList es), Some (JList rs)) \<Rightarrow> True
      | _ \<Rightarrow> False)"

definition is_er_spec :: "json \<Rightarrow> bool" where
  "is_er_spec er_data =
     (has_lists er_data \<and> list_all is_str (entities_of er_data) \<and>
      list_all is_relationship (relationships_of er_data))"

definition entity_names :: "json \<Rightarrow> pystr list" where
  "entity_names er_data = map the_str (entities_of er_data)"

text \<open>Well-formed: an ER Specification whose entity names are distinct.\<close>

definition well_formed :: "json \<Rightarrow> bool" where
  "well_formed er_data = (is_er_spec er_data \<and> distinct (entity_names er_data))"

text \<open>The statements the specification describes: the node of an entity, the edge of a
  relationship (with the empty label when there is no relation), and the two SQL texts.\<close>

definition entity_node :: "pystr \<Rightarrow> statement" where
  "entity_node name = Node name name [((str ''shape''), (str ''box'')), ((str ''style''), (str ''filled'')), ((str ''color''), (str ''lightblue''))]"

definition relationship_edge :: "json \<Rightarrow> statement" where
  "relationship_edge rel =
     Edge (str_field rel (str ''from'')) (str_field rel (str ''to'')) (Some (str_field rel (str ''relation'')))"

definition create_table_text :: "pystr \<Rightarrow> pystr" where
  "create_table_text name =
     (str ''CREATE TABLE '') @ name @ (str '' (\<newline>    id INT PRIMARY KEY,\<newline>    name VARCHAR(100)\<newline>);'')"

definition alter_table_text :: "(pystr \<Rightarrow> pystr) \<Rightarrow> json \<Rightarrow> pystr" where
  "alter_table_text lower rel =
     (str ''-- '') @ str_field rel (str ''from'') @ (str '' '') @ str_field rel (str ''relation'') @ (str '' '') @
       str_field rel (str ''to'') @ (str ''\<newline>'') @
     (str ''ALTER TABLE '') @ str_field rel (str ''from'') @ (str '' ADD COLUMN '') @
       lower (str_field rel (str ''to'')) @ (str ''_id INT REFERENCES '') @ str_field rel (str ''to'') @ (str ''(id);'')"

fun is_node :: "statement \<Rightarrow> bool" where
  "is_node (Node name label attrs) = True"
| "is_node (Edge tail_name head_name label) = False"

text \<open>
  JSON whitespace (space, TAB, LF, CR) is what \<^verbatim>\<open>json.loads\<close> skips before and after the
  value, fewer characters than \<^verbatim>\<open>str.strip()\<close> removes. \<open>skips_json_space loads\<close> says so
  of a parser: JSON whitespace around a text changes neither whether the text parses nor
  the value. \<open>json_space_ends c\<close> says that the whitespace at the two ends of \<open>c\<close> is JSON
  whitespace.
\<close>

definition json_space :: "nat \<Rightarrow> bool" where
  "json_space c = (c = 32 \<or> c = 9 \<or> c = 10 \<or> c = 13)"

definition same_value :: "py_error + json \<Rightarrow> py_error + json \<Rightarrow> bool" where
  "same_value r r' = (case r of Inr v \<Rightarrow> r' = Inr v | Inl e \<Rightarrow> isl r')"

definition skips_json_space :: "(pystr \<Rightarrow> py_error + json) \<Rightarrow> bool" where
  "skips_json_space loads =
     (\<forall>a s b. list_all json_space a \<and> list_all json_space b \<longrightarrow>
        same_value (loads (a @ s @ b)) (loads s))"

definition json_space_ends :: "pystr \<Rightarrow> bool" where
  "json_space_ends c =
     (list_all json_space (takeWhile str_isspace c) \<and>
      list_all json_space (takeWhile str_isspace (rev c)))"

text \<open>
  The parser and the external services used at the concrete examples: a \<^verbatim>\<open>json.loads\<close>
  that skips JSON whitespace, knows the three texts of the examples and rejects any
  other, a provider that answers every request with one text, and \<^verbatim>\<open>str.lower\<close> on the
  letters A to Z.
\<close>

definition example_spec :: json where
  "example_spec =
     JDict [(str ''entities'', JList [JStr (str ''Customer''), JStr (str ''Order'')]),
            (str ''relationships'',
             JList [JDict [(str ''from'', JStr (str ''Customer'')), (str ''to'', JStr (str ''Order'')),
                           (str ''relation'', JStr (str ''places''))]])]"

definition example_text :: pystr where
  \<open>example_text =
     str ''{"entities": ["Customer","Order"], "relationships": [{"from":"Customer","to":"Order","relation":"places"}]}''\<close>

definition json_strip :: "pystr \<Rightarrow> pystr" where
  "json_strip s = rev (dropWhile json_space (rev (dropWhile json_space s)))"

definition example_loads :: "pystr \<Rightarrow> py_error + json" where
  "example_loads s =
     (let t = json_strip s in
      if t = example_text then Inr example_spec
      else if t = str ''[]'' then Inr (JList [])
      else if t = str ''{}'' then Inr (JDict [])
      else Inl (LibraryError (str ''JSONDecodeError'')))"

definition answering :: "pystr \<Rightarrow> provider" where
  "answering t = (\<lambda>request. Inr (Some t))"

definition ascii_lower :: "pystr \<Rightarrow> pystr" where
  "ascii_lower s = map (\<lambda>c. if 65 \<le> c \<and> c \<le> 90 then c + 32 else c) s"

section \<open>Literals and sequencing\<close>

lemma str_eq_iff [simp]: "str a = str b \<longleftrightarrow> a = b"
proof -
  have "inj (of_char :: char \<Rightarrow> nat)"
    by (rule injI) simp
  then show ?thesis
    by (simp add: str_def inj_map_eq_map)
qed

lemma str_Nil_iff [simp]: "str a = [] \<longleftrightarrow> a = []"
  by (simp add: str_def)

lemma fence_eq: "fence = [96, 96, 96]"
  by (simp add: fence_def str_def)

lemma andthen_Inr [simp]: "andthen (Inr x) f = f x"
  by (simp add: andthen_def)

lemma andthen_Inl [simp]: "andthen (Inl e) f = Inl e"
  by (simp add: andthen_def)

section \<open>Properties of the string methods\<close>

lemma backtick_not_space [simp]: "\<not> str_isspace 96"
  by (simp add: str_isspace_def)

lemma strip_id:
  assumes "s \<noteq> []" "\<not> str_isspace (hd s)" "\<not> str_isspace (last s)"
  shows "str_strip s = s"
proof -
  from assms have 1: "dropWhile str_isspace s = s"
    by (cases s) auto
  from assms have "dropWhile str_isspace (rev s) = rev s"
    by (cases "rev s") (auto simp: hd_rev)
  with 1 show ?thesis by (simp add: str_strip_def)
qed

lemma strip_decomp:
  "\<exists>a b. s = a @ str_strip s @ b \<and> (\<forall>c\<in>set a. str_isspace c) \<and> (\<forall>c\<in>set b. str_isspace c)"
proof -
  let ?a = "takeWhile str_isspace s"
  let ?u = "dropWhile str_isspace s"
  let ?b = "rev (takeWhile str_isspace (rev ?u))"
  have "rev ?u = takeWhile str_isspace (rev ?u) @ dropWhile str_isspace (rev ?u)"
    by simp
  then have "?u = str_strip s @ ?b"
    unfolding str_strip_def by (metis rev_append rev_rev_ident)
  then have "s = ?a @ str_strip s @ ?b"
    by (metis takeWhile_dropWhile_id)
  moreover have "\<forall>c\<in>set ?a. str_isspace c"
    by (auto dest: set_takeWhileD)
  moreover have "\<forall>c\<in>set ?b. str_isspace c"
    by (auto dest: set_takeWhileD)
  ultimately show ?thesis by blast
qed

lemma all_dropWhile: "(\<forall>x\<in>set (dropWhile P s). P x) \<longleftrightarrow> (\<forall>x\<in>set s. P x)"
proof
  assume a: "\<forall>x\<in>set (dropWhile P s). P x"
  have "set s = set (takeWhile P s) \<union> set (dropWhile P s)"
    by (metis set_append takeWhile_dropWhile_id)
  with a show "\<forall>x\<in>set s. P x"
    by (auto dest: set_takeWhileD)
next
  assume "\<forall>x\<in>set s. P x"
  then show "\<forall>x\<in>set (dropWhile P s). P x"
    by (auto dest: set_dropWhileD)
qed

lemma strip_empty_iff: "str_strip s = [] \<longleftrightarrow> (\<forall>c\<in>set s. str_isspace c)"
  by (simp add: str_strip_def dropWhile_eq_Nil_conv all_dropWhile)

lemma strip_ends:
  assumes "str_strip s \<noteq> []"
  shows "\<not> str_isspace (hd (str_strip s)) \<and> \<not> str_isspace (last (str_strip s))"
proof -
  let ?u = "dropWhile str_isspace s"
  let ?v = "dropWhile str_isspace (rev ?u)"
  from assms have v: "?v \<noteq> []" by (simp add: str_strip_def)
  then have hv: "\<not> str_isspace (hd ?v)" by (rule hd_dropWhile)
  have u: "?u \<noteq> []"
  proof
    assume e: "?u = []"
    have "?v = []" unfolding e by simp
    with v show False by simp
  qed
  then have hu: "\<not> str_isspace (hd ?u)" by (rule hd_dropWhile)
  have "\<exists>w. rev ?u = w @ ?v"
    by (metis takeWhile_dropWhile_id)
  then obtain w where w: "rev ?u = w @ ?v" ..
  with v have "last ?v = last (rev ?u)" by (metis last_appendR)
  also have "\<dots> = hd ?u" using u by (simp add: last_rev)
  finally have "\<not> str_isspace (last ?v)" using hu by simp
  with hv v show ?thesis by (simp add: str_strip_def hd_rev last_rev)
qed

lemma strip_idem: "str_strip (str_strip s) = str_strip s"
proof (cases "str_strip s = []")
  case True
  have "str_strip [] = []" by (simp add: str_strip_def)
  with True show ?thesis by simp
next
  case False
  then show ?thesis using strip_ends [OF False] by (intro strip_id) auto
qed

lemma contains_iff: "str_contains s sub \<longleftrightarrow> (\<exists>a b. s = a @ sub @ b)"
proof (induction s)
  case Nil
  then show ?case by auto
next
  case (Cons c cs)
  show ?case
  proof
    assume "str_contains (c # cs) sub"
    then consider "prefix sub (c # cs)" | "str_contains cs sub" by auto
    then show "\<exists>a b. c # cs = a @ sub @ b"
    proof cases
      case 1
      then obtain b where "c # cs = sub @ b" by (auto simp: prefix_def)
      then have "c # cs = [] @ sub @ b" by simp
      then show ?thesis by blast
    next
      case 2
      with Cons.IH obtain a b where "cs = a @ sub @ b" by blast
      then have "c # cs = (c # a) @ sub @ b" by simp
      then show ?thesis by blast
    qed
  next
    assume "\<exists>a b. c # cs = a @ sub @ b"
    then obtain a b where ab: "c # cs = a @ sub @ b" by blast
    show "str_contains (c # cs) sub"
    proof (cases a)
      case Nil
      with ab have "prefix sub (c # cs)" by (simp add: prefix_def)
      then show ?thesis by simp
    next
      case (Cons x a')
      with ab have "cs = a' @ sub @ b" by simp
      with Cons.IH show ?thesis by auto
    qed
  qed
qed

lemma contains_strip: "str_contains (str_strip s) sub \<Longrightarrow> str_contains s sub"
proof -
  assume "str_contains (str_strip s) sub"
  then obtain a b where 1: "str_strip s = a @ sub @ b" by (auto simp: contains_iff)
  obtain a' b' where "s = a' @ str_strip s @ b'" using strip_decomp by blast
  with 1 have "s = (a' @ a) @ sub @ (b @ b')" by simp
  then show ?thesis unfolding contains_iff by blast
qed

lemma split_aux_not_Nil: "str_split_aux sep acc s \<noteq> []"
  by (induction sep acc s rule: str_split_aux.induct) auto

lemma split_aux_two:
  "str_contains s sep \<Longrightarrow> sep \<noteq> [] \<Longrightarrow> \<exists>a b rest. str_split_aux sep acc s = a # b # rest"
proof (induction sep acc s rule: str_split_aux.induct)
  case (1 sep acc)
  then show ?case by simp
next
  case (2 sep acc c cs)
  show ?case
  proof (cases "prefix sep (c # cs)")
    case True
    obtain b rest where "str_split_aux sep [] (drop (length sep) (c # cs)) = b # rest"
      using split_aux_not_Nil by (meson list.exhaust)
    with True 2 show ?thesis by simp
  next
    case False
    with 2 show ?thesis by simp
  qed
qed


section \<open>Properties of the two clean-ups\<close>

lemma clean_dot_plain:
  assumes "\<not> str_contains t fence"
  shows "clean_dot t = Inr (str_strip t)"
proof -
  from assms have "\<not> str_contains (str_strip t) fence"
    using contains_strip by blast
  then show ?thesis by (simp add: clean_dot_def strip_idem)
qed

lemma fence_not_prefix:
  assumes "\<not> str_contains x fence" "x = [] \<or> last x \<noteq> 96" "x \<noteq> []"
  shows "\<not> prefix fence (x @ fence @ rest)"
proof
  assume p: "prefix fence (x @ fence @ rest)"
  show False
  proof (cases x)
    case Nil
    with assms(3) show False by simp
  next
    case a: (Cons a y)
    show False
    proof (cases y)
      case Nil
      with a p assms(2) show False by (simp add: fence_def str_def)
    next
      case b: (Cons b z)
      show False
      proof (cases z)
        case Nil
        with a b p assms(2) show False by (simp add: fence_def str_def)
      next
        case (Cons c w)
        with a b p have "prefix fence x" by (simp add: fence_def str_def)
        with a have "str_contains x fence" by simp
        with assms(1) show False by simp
      qed
    qed
  qed
qed

lemma split_aux_first:
  "\<not> str_contains x fence \<Longrightarrow> x = [] \<or> last x \<noteq> 96 \<Longrightarrow>
   str_split_aux fence acc (x @ fence @ rest) = (rev acc @ x) # str_split_aux fence [] rest"
proof (induction x arbitrary: acc)
  case Nil
  show ?case by (simp add: fence_def str_def)
next
  case (Cons a x)
  have n: "\<not> prefix fence ((a # x) @ fence @ rest)"
    using Cons.prems by (intro fence_not_prefix) simp_all
  from Cons.prems have 1: "\<not> str_contains x fence" by simp
  from Cons.prems have 2: "x = [] \<or> last x \<noteq> 96" by (cases x) simp_all
  from n show ?case by (simp add: Cons.IH [OF 1 2])
qed

lemma strip_fenced: "str_strip (fence @ x @ fence) = fence @ x @ fence"
  by (rule strip_id) (simp_all add: fence_def str_def)

lemma clean_dot_fenced:
  assumes "\<not> str_contains x fence" "x = [] \<or> last x \<noteq> 96"
  shows "clean_dot (fence @ x @ fence) =
         Inr (str_strip (if str_startswith x (str ''dot'') then drop 3 x else x))"
proof -
  have c: "str_contains (fence @ x @ fence) fence"
    unfolding contains_iff by (metis append_Nil)
  have "str_split_aux fence [] (fence @ x @ fence) = [] # str_split_aux fence [] (x @ fence @ [])"
    by (simp add: fence_def str_def)
  also have "\<dots> = [] # x # str_split_aux fence [] []"
    using split_aux_first [OF assms, of "[]" "[]"] by simp
  finally have "str_split (fence @ x @ fence) fence = [[], x, []]"
    by (simp add: str_split_def)
  with c show ?thesis by (simp add: clean_dot_def strip_fenced)
qed

lemma clean_dot_tagged:
  assumes "\<not> str_contains c fence" "c = [] \<or> last c \<noteq> 96"
  shows "clean_dot (fence @ str ''dot'' @ c @ fence) = Inr (str_strip c)"
proof -
  from assms(1) have 1: "\<not> str_contains (str ''dot'' @ c) fence"
    by (simp add: fence_def str_def)
  from assms(2) have 2: "str ''dot'' @ c = [] \<or> last (str ''dot'' @ c) \<noteq> 96"
    by (cases "c = []") (simp_all add: str_def)
  have "clean_dot (fence @ (str ''dot'' @ c) @ fence) =
        Inr (str_strip (if str_startswith (str ''dot'' @ c) (str ''dot'')
                        then drop 3 (str ''dot'' @ c) else str ''dot'' @ c))"
    using 1 2 by (rule clean_dot_fenced)
  then show ?thesis by (simp add: str_startswith_def str_def)
qed

lemma prefix_append_tail:
  assumes "prefix old (m @ b)" "\<not> prefix old m"
  obtains us where "old = m @ us" "us \<noteq> []" "prefix us b"
proof -
  from assms(1) consider "prefix old m" | us where "old = m @ us" "prefix us b"
    unfolding prefix_append by blast
  then show ?thesis
  proof cases
    case 1
    with assms(2) show ?thesis by simp
  next
    case 2
    with assms(2) have "us \<noteq> []" by auto
    with 2 that show ?thesis by blast
  qed
qed

lemma drop_append_le: "n \<le> length xs \<Longrightarrow> drop n (xs @ ys) = drop n xs @ ys"
  by simp

lemma replace_skip:
  "old \<noteq> [] \<Longrightarrow> hd old \<notin> set x \<Longrightarrow> str_replace (x @ rest) old new = x @ str_replace rest old new"
proof (induction x)
  case Nil
  show ?case by simp
next
  case (Cons c x)
  then have "\<not> prefix old (c # x @ rest)" by (cases old) auto
  with Cons show ?case by simp
qed

lemma replace_absent:
  "old \<noteq> [] \<Longrightarrow> hd old \<notin> set x \<Longrightarrow> str_replace x old new = x"
  using replace_skip [of old x "[]" new] by simp

lemma replace_keeps_tail:
  "old \<noteq> [] \<Longrightarrow> set b \<inter> set old = {} \<Longrightarrow>
   str_replace (m @ b) old new = str_replace m old new @ b"
proof (induction m old new rule: str_replace.induct)
  case (1 old new)
  then have "hd old \<notin> set b" by (cases old) auto
  with 1 show ?case by (simp add: replace_absent)
next
  case (2 c cs old new)
  show ?case
  proof (cases "prefix old (c # cs)")
    case True
    then have p: "prefix old ((c # cs) @ b)" by (rule prefix_prefix)
    from True have "length old \<le> length (c # cs)" by (rule prefix_length_le)
    then have d: "drop (length old) ((c # cs) @ b) = drop (length old) (c # cs) @ b"
      by (rule drop_append_le)
    have "str_replace ((c # cs) @ b) old new =
          new @ str_replace (drop (length old) ((c # cs) @ b)) old new"
      using p "2.prems"(1) by simp
    also have "\<dots> = new @ str_replace (drop (length old) (c # cs)) old new @ b"
    proof -
      have "str_replace (drop (length old) (c # cs) @ b) old new =
            str_replace (drop (length old) (c # cs)) old new @ b"
        using True "2.prems" by (intro "2.IH"(1)) simp_all
      then show ?thesis by (simp only: d)
    qed
    also have "\<dots> = str_replace (c # cs) old new @ b"
      using True "2.prems"(1) by simp
    finally show ?thesis .
  next
    case False
    have "\<not> prefix old ((c # cs) @ b)"
    proof
      assume "prefix old ((c # cs) @ b)"
      then obtain us where "old = (c # cs) @ us" "us \<noteq> []" "prefix us b"
        using False by (rule prefix_append_tail)
      then have "hd us \<in> set b" "hd us \<in> set old"
        by (auto simp: prefix_def)
      with "2.prems" show False by blast
    qed
    with False 2 show ?thesis by simp
  qed
qed

lemma replace_json_fence_tail:
  "old = fence @ str ''json'' \<Longrightarrow> str_replace (c @ fence) old new = str_replace c old new @ fence"
proof (induction c old new rule: str_replace.induct)
  case (1 old new)
  then show ?case by (simp add: fence_def str_def)
next
  case (2 c cs old new)
  show ?case
  proof (cases "prefix old (c # cs)")
    case True
    then have p: "prefix old ((c # cs) @ fence)" by (rule prefix_prefix)
    from True have "length old \<le> length (c # cs)" by (rule prefix_length_le)
    then have d: "drop (length old) ((c # cs) @ fence) = drop (length old) (c # cs) @ fence"
      by (rule drop_append_le)
    from "2.prems" have ne: "old \<noteq> []" by (simp add: fence_def str_def)
    have "str_replace ((c # cs) @ fence) old new =
          new @ str_replace (drop (length old) ((c # cs) @ fence)) old new"
      using p ne by simp
    also have "\<dots> = new @ str_replace (drop (length old) (c # cs)) old new @ fence"
    proof -
      have "str_replace (drop (length old) (c # cs) @ fence) old new =
            str_replace (drop (length old) (c # cs)) old new @ fence"
        using True ne "2.prems" by (intro "2.IH"(1)) simp_all
      then show ?thesis by (simp only: d)
    qed
    also have "\<dots> = str_replace (c # cs) old new @ fence"
      using True ne by simp
    finally show ?thesis .
  next
    case False
    have "\<not> prefix old ((c # cs) @ fence)"
    proof
      assume "prefix old ((c # cs) @ fence)"
      then obtain us where us: "old = (c # cs) @ us" "us \<noteq> []" "prefix us fence"
        using False by (rule prefix_append_tail)
      then have "last old = last us" by simp
      moreover have "last us = 96"
      proof -
        from us have "last us \<in> set us" by simp
        moreover from us have "set us \<subseteq> set fence" by (simp add: set_mono_prefix)
        ultimately show ?thesis by (auto simp: fence_def str_def)
      qed
      ultimately show False using "2.prems" by (simp add: fence_def str_def)
    qed
    with False 2 show ?thesis by simp
  qed
qed

lemma replace_fence_tail:
  "old = fence \<Longrightarrow> new = [] \<Longrightarrow> str_replace (d @ old) old new = str_replace d old new"
proof (induction d old new rule: str_replace.induct)
  case (1 old new)
  then show ?case by (simp add: fence_def str_def)
next
  case (2 c cs old new)
  from "2.prems" have ne: "old \<noteq> []" by (simp add: fence_def str_def)
  show ?case
  proof (cases "prefix old (c # cs)")
    case True
    then have p: "prefix old ((c # cs) @ old)" by (rule prefix_prefix)
    from True have "length old \<le> length (c # cs)" by (rule prefix_length_le)
    then have d: "drop (length old) ((c # cs) @ old) = drop (length old) (c # cs) @ old"
      by (rule drop_append_le)
    have "str_replace ((c # cs) @ old) old new =
          new @ str_replace (drop (length old) ((c # cs) @ old)) old new"
      using p ne by simp
    also have "\<dots> = new @ str_replace (drop (length old) (c # cs)) old new"
    proof -
      have "str_replace (drop (length old) (c # cs) @ old) old new =
            str_replace (drop (length old) (c # cs)) old new"
        using True ne "2.prems" by (intro "2.IH"(1)) simp_all
      then show ?thesis by (simp only: d)
    qed
    also have "\<dots> = str_replace (c # cs) old new"
      using True ne by simp
    finally show ?thesis .
  next
    case False
    show ?thesis
    proof (cases "prefix old ((c # cs) @ old)")
      case True
      then obtain us where us: "old = (c # cs) @ us" "us \<noteq> []"
        using False by (rule prefix_append_tail)
      with "2.prems" have "c # cs = [96] \<or> c # cs = [96, 96]"
        by (cases us; cases cs; cases "tl cs") (auto simp: fence_def str_def)
      with "2.prems" show ?thesis by (auto simp: fence_def str_def)
    next
      case n: False
      have "str_replace (cs @ old) old new = str_replace cs old new"
        using False "2.prems" by (intro "2.IH"(2)) simp_all
      with False n show ?thesis by simp
    qed
  qed
qed

lemma clean_json_tagged:
  "clean_json (fence @ str ''json'' @ c @ fence) =
   str_replace (str_replace c (fence @ str ''json'') []) fence []"
proof -
  have "str_strip (fence @ str ''json'' @ c @ fence) = fence @ str ''json'' @ c @ fence"
    using strip_fenced [of "str ''json'' @ c"] by simp
  moreover have "str_replace (fence @ str ''json'' @ c @ fence) (fence @ str ''json'') [] =
        str_replace (c @ fence) (fence @ str ''json'') []"
    by (simp add: fence_def str_def)
  moreover have "str_replace (c @ fence) (fence @ str ''json'') [] =
        str_replace c (fence @ str ''json'') [] @ fence"
    by (rule replace_json_fence_tail) simp
  moreover have "str_replace (str_replace c (fence @ str ''json'') [] @ fence) fence [] =
        str_replace (str_replace c (fence @ str ''json'') []) fence []"
    by (rule replace_fence_tail) simp_all
  ultimately show ?thesis by (simp add: clean_json_def)
qed

lemma replace_step:
  "\<not> prefix old (c # cs) \<Longrightarrow> str_replace (c # cs) old new = c # str_replace cs old new"
  by simp

lemma json_not_prefix:
  assumes n: "\<not> prefix (str ''json'') c"
  shows "\<not> prefix (str ''json'') (c @ fence)"
proof
  assume "prefix (str ''json'') (c @ fence)"
  then obtain us where us: "str ''json'' = c @ us" "us \<noteq> []" "prefix us fence"
    using n by (rule prefix_append_tail)
  then have "hd us \<in> set fence"
    by (metis hd_in_set set_mono_prefix subsetD)
  moreover from us have "hd us \<in> set (str ''json'')"
    by (metis hd_in_set in_set_conv_decomp list.set_intros(1) list.exhaust_sel set_append UnI2)
  ultimately show False by (auto simp: fence_def str_def)
qed

lemma replace_untagged:
  assumes n: "\<not> prefix (str ''json'') c" and h: "c = [] \<or> hd c \<noteq> 96"
  shows "str_replace (fence @ c @ fence) (fence @ str ''json'') [] =
         fence @ str_replace (c @ fence) (fence @ str ''json'') []"
proof -
  have n0: "\<not> prefix (fence @ str ''json'') (96 # 96 # 96 # c @ fence)"
    using json_not_prefix [OF n] by (simp add: fence_def str_def)
  have n1: "\<not> prefix (fence @ str ''json'') (96 # 96 # c @ fence)"
    using h by (cases c) (auto simp: fence_def str_def)
  have n2: "\<not> prefix (fence @ str ''json'') (96 # c @ fence)"
    using h by (cases c) (auto simp: fence_def str_def)
  have "str_replace (96 # 96 # 96 # c @ fence) (fence @ str ''json'') [] =
        96 # 96 # 96 # str_replace (c @ fence) (fence @ str ''json'') []"
    by (simp only: replace_step [OF n0] replace_step [OF n1] replace_step [OF n2])
  then show ?thesis by (simp add: fence_def str_def)
qed

lemma clean_json_untagged:
  assumes n: "\<not> str_startswith c (str ''json'')" and h: "c = [] \<or> hd c \<noteq> 96"
  shows "clean_json (fence @ c @ fence) =
         str_replace (str_replace c (fence @ str ''json'') []) fence []"
proof -
  from n have n': "\<not> prefix (str ''json'') c" by (simp add: str_startswith_def)
  have "str_strip (fence @ c @ fence) = fence @ c @ fence" by (rule strip_fenced)
  moreover have "str_replace (fence @ c @ fence) (fence @ str ''json'') [] =
      fence @ str_replace (c @ fence) (fence @ str ''json'') []"
    using n' h by (rule replace_untagged)
  moreover have "str_replace (c @ fence) (fence @ str ''json'') [] =
        str_replace c (fence @ str ''json'') [] @ fence"
    by (rule replace_json_fence_tail) simp
  moreover have "str_replace (fence @ x @ fence) fence [] = str_replace (x @ fence) fence []" for x
    by (simp add: fence_def str_def)
  moreover have "str_replace (str_replace c (fence @ str ''json'') [] @ fence) fence [] =
        str_replace (str_replace c (fence @ str ''json'') []) fence []"
    by (rule replace_fence_tail) simp_all
  ultimately show ?thesis by (simp add: clean_json_def)
qed

lemma json_space_not_backtick: "list_all json_space a \<Longrightarrow> 96 \<notin> set a"
  by (induction a) (auto simp: json_space_def)

lemma json_space_disjoint:
  "list_all json_space b \<Longrightarrow> set b \<inter> set (fence @ str ''json'') = {} \<and> set b \<inter> set fence = {}"
  by (induction b) (auto simp: json_space_def fence_def str_def)

lemma unfence_ends:
  assumes a: "list_all json_space a" and b: "list_all json_space b"
  shows "str_replace (str_replace (a @ m @ b) (fence @ str ''json'') []) fence [] =
         a @ str_replace (str_replace m (fence @ str ''json'') []) fence [] @ b"
proof -
  from a have na: "96 \<notin> set a" by (rule json_space_not_backtick)
  from b have db: "set b \<inter> set (fence @ str ''json'') = {}" "set b \<inter> set fence = {}"
    using json_space_disjoint by blast+
  have "str_replace (a @ m @ b) (fence @ str ''json'') [] =
        a @ str_replace (m @ b) (fence @ str ''json'') []"
    using na by (intro replace_skip) (simp_all add: fence_def str_def)
  also have "str_replace (m @ b) (fence @ str ''json'') [] =
        str_replace m (fence @ str ''json'') [] @ b"
    using db(1) by (intro replace_keeps_tail) (simp_all add: fence_def str_def)
  finally have 1: "str_replace (a @ m @ b) (fence @ str ''json'') [] =
        a @ str_replace m (fence @ str ''json'') [] @ b" .
  have "str_replace (a @ x @ b) fence [] = a @ str_replace (x @ b) fence []" for x
    using na by (intro replace_skip) (simp_all add: fence_def str_def)
  moreover have "str_replace (x @ b) fence [] = str_replace x fence [] @ b" for x
    using db(2) by (intro replace_keeps_tail) (simp_all add: fence_def str_def)
  ultimately show ?thesis using 1 by simp
qed

lemma takeWhile_append_subset: "set (takeWhile P xs) \<subseteq> set (takeWhile P (xs @ ys))"
proof (cases "\<forall>x\<in>set xs. P x")
  case True
  then have "takeWhile P (xs @ ys) = xs @ takeWhile P ys"
    by (simp add: takeWhile_append2)
  then show ?thesis by (auto dest: set_takeWhileD)
next
  case False
  then obtain x where "x \<in> set xs" "\<not> P x" by blast
  then have "takeWhile P (xs @ ys) = takeWhile P xs"
    by (rule takeWhile_append1)
  then show ?thesis by simp
qed

lemma strip_json_ends:
  assumes "json_space_ends c"
  shows "\<exists>a b. c = a @ str_strip c @ b \<and> list_all json_space a \<and> list_all json_space b"
proof -
  let ?a = "takeWhile str_isspace c"
  let ?d = "dropWhile str_isspace c"
  let ?b = "rev (takeWhile str_isspace (rev ?d))"
  have "rev ?d = takeWhile str_isspace (rev ?d) @ dropWhile str_isspace (rev ?d)"
    by simp
  then have "?d = str_strip c @ ?b"
    unfolding str_strip_def by (metis rev_append rev_rev_ident)
  then have 1: "c = ?a @ str_strip c @ ?b"
    by (metis takeWhile_dropWhile_id)
  have "rev c = rev ?d @ rev ?a"
    by (metis rev_append takeWhile_dropWhile_id)
  then have "set (takeWhile str_isspace (rev ?d)) \<subseteq> set (takeWhile str_isspace (rev c))"
    by (metis takeWhile_append_subset)
  with assms have "list_all json_space ?b"
    by (auto simp: json_space_ends_def list_all_iff)
  moreover from assms have "list_all json_space ?a"
    by (simp add: json_space_ends_def)
  ultimately show ?thesis using 1 by blast
qed

lemma same_value_snd:
  assumes "same_value (loads (clean_json t)) (loads (clean_json t'))"
  shows "snd (generate_er_spec (answering t) loads p) = snd (generate_er_spec (answering t') loads p)"
  using assms
  by (auto simp: generate_er_spec_def answering_def same_value_def isl_def split: sum.splits)

lemma fenced_json_same_value:
  assumes s: "skips_json_space loads" and e: "json_space_ends c"
    and w: "clean_json w = str_replace (str_replace c (fence @ str ''json'') []) fence []"
  shows "snd (generate_er_spec (answering w) loads p) = snd (generate_er_spec (answering c) loads p)"
proof -
  from e obtain a b where c: "c = a @ str_strip c @ b"
    and a: "list_all json_space a" and b: "list_all json_space b"
    using strip_json_ends by blast
  let ?m = "str_replace (str_replace (str_strip c) (fence @ str ''json'') []) fence []"
  have "str_replace (str_replace (a @ str_strip c @ b) (fence @ str ''json'') []) fence [] =
        a @ ?m @ b"
    using a b by (rule unfence_ends)
  with c w have "clean_json w = a @ ?m @ b" by simp
  moreover have "clean_json c = ?m" by (simp add: clean_json_def)
  moreover from s a b have "same_value (loads (a @ ?m @ b)) (loads ?m)"
    by (simp add: skips_json_space_def)
  ultimately show ?thesis by (simp add: same_value_snd)
qed

lemma json_strip_ends:
  assumes a: "list_all json_space a" and b: "list_all json_space b"
  shows "json_strip (a @ s @ b) = json_strip s"
proof -
  have 1: "dropWhile json_space (x @ y) = dropWhile json_space y" if "list_all json_space x" for x y
    using that by (induction x) simp_all
  from b have rb: "list_all json_space (rev b)" by (simp add: list_all_iff)
  from b have eb: "dropWhile json_space b = []"
    by (simp add: dropWhile_eq_Nil_conv list_all_iff)
  have 2: "dropWhile json_space (a @ s @ b) = dropWhile json_space (s @ b)"
    using a by (rule 1)
  show ?thesis
  proof (cases "\<forall>x\<in>set s. json_space x")
    case True
    then have "list_all json_space s" by (simp add: list_all_iff)
    then have "dropWhile json_space (s @ b) = dropWhile json_space b"
      by (rule 1)
    with 2 eb have e1: "dropWhile json_space (a @ s @ b) = []" by simp
    from True have e2: "dropWhile json_space s = []"
      by (simp add: dropWhile_eq_Nil_conv)
    show ?thesis by (simp only: json_strip_def e1 e2)
  next
    case False
    then obtain x where "x \<in> set s" "\<not> json_space x" by blast
    then have "dropWhile json_space (s @ b) = dropWhile json_space s @ b"
      by (rule dropWhile_append1)
    with 2 have "rev (dropWhile json_space (a @ s @ b)) = rev b @ rev (dropWhile json_space s)"
      by simp
    then show ?thesis using rb by (simp only: json_strip_def 1)
  qed
qed

lemma example_loads_skips: "skips_json_space example_loads"
  by (simp add: skips_json_space_def example_loads_def json_strip_ends same_value_def Let_def)

section \<open>Properties of the renderer and of the synthesizer on shaped values\<close>

lemma isl_andthen: "(\<And>x. m = Inr x \<Longrightarrow> isl (f x)) \<Longrightarrow> isl (andthen m f)"
  by (cases m) (simp_all add: andthen_def)

lemma has_str_getitem: "has_str v key \<Longrightarrow> getitem v key = Inr (JStr (str_field v key))"
  by (cases v) (auto simp: has_str_def str_field_def split: option.splits json.splits)

lemma has_str_dict_get: "has_str v key \<Longrightarrow> dict_get v key dflt = Inr (JStr (str_field v key))"
  by (cases v) (auto simp: has_str_def str_field_def split: option.splits json.splits)

lemma no_field_dict_get:
  "has_str v other \<Longrightarrow> field v key = None \<Longrightarrow> dict_get v key dflt = Inr dflt"
  by (cases v) (auto simp: has_str_def)

lemma no_field_getitem:
  "has_str v other \<Longrightarrow> field v key = None \<Longrightarrow> getitem v key = Inl (KeyError key)"
  by (cases v) (auto simp: has_str_def)

lemma no_field_str_field: "field v key = None \<Longrightarrow> str_field v key = []"
  by (simp add: str_field_def)

lemma is_relationship_unlabelled: "is_relationship rel \<Longrightarrow> is_unlabelled_relationship rel"
  by (simp add: is_relationship_def is_unlabelled_relationship_def)

lemma node_str:
  "is_str entity \<Longrightarrow>
   node dot entity entity entity_attrs = Inr (dot\<lparr>body := body dot @ [entity_node (the_str entity)]\<rparr>)"
  by (cases entity) (simp_all add: entity_node_def entity_attrs_def)

lemma add_entities_strs:
  "list_all is_str es \<Longrightarrow>
   add_entities es dot = Inr (dot\<lparr>body := body dot @ map entity_node (map the_str es)\<rparr>)"
proof (induction es arbitrary: dot)
  case Nil
  show ?case by simp
next
  case (Cons e es)
  then show ?case by (simp add: node_str)
qed

lemma edge_of_relationship:
  assumes "is_unlabelled_relationship rel"
  shows "andthen (getitem rel (str ''from'')) (\<lambda>tail_name.
         andthen (getitem rel (str ''to'')) (\<lambda>head_name.
         andthen (dict_get rel (str ''relation'') (JStr [])) (\<lambda>label.
         andthen (edge dot tail_name head_name label) k))) =
         k (dot\<lparr>body := body dot @ [relationship_edge rel]\<rparr>)"
proof -
  from assms have f: "has_str rel (str ''from'')" and t: "has_str rel (str ''to'')"
    by (simp_all add: is_unlabelled_relationship_def)
  from assms consider "field rel (str ''relation'') = None" | "has_str rel (str ''relation'')"
    by (auto simp: is_unlabelled_relationship_def)
  then show ?thesis
  proof cases
    case 1
    then have "dict_get rel (str ''relation'') (JStr []) = Inr (JStr [])"
      using f by (rule no_field_dict_get [rotated])
    with 1 f t show ?thesis
      by (simp add: has_str_getitem relationship_edge_def no_field_str_field)
  next
    case 2
    with f t show ?thesis
      by (simp add: has_str_getitem has_str_dict_get relationship_edge_def)
  qed
qed

lemma add_relationships_edges:
  "list_all is_unlabelled_relationship rs \<Longrightarrow>
   add_relationships rs dot = Inr (dot\<lparr>body := body dot @ map relationship_edge rs\<rparr>)"
proof (induction rs arbitrary: dot)
  case Nil
  show ?case by simp
next
  case (Cons r rs)
  then show ?case by (simp add: edge_of_relationship)
qed

lemma has_lists_dict_get:
  assumes "has_lists er_data"
  shows "dict_get er_data (str ''entities'') dflt = Inr (JList (entities_of er_data))"
    and "dict_get er_data (str ''relationships'') dflt = Inr (JList (relationships_of er_data))"
  using assms
  by (cases er_data; auto simp: has_lists_def entities_of_def relationships_of_def
      split: option.splits json.splits)+

lemma create_er_diagram_body:
  assumes "has_lists er_data" "list_all is_str (entities_of er_data)"
    "list_all is_unlabelled_relationship (relationships_of er_data)"
  shows "create_er_diagram er_data =
         Inr \<lparr>comment = (str ''ER Diagram''), graph_attr = [((str ''rankdir''), (str ''LR''))],
              body = map entity_node (entity_names er_data) @
                     map relationship_edge (relationships_of er_data)\<rparr>"
  using assms
  by (simp add: create_er_diagram_def has_lists_dict_get add_entities_strs
      add_relationships_edges Digraph_def attr_def entity_names_def)

lemma sql_entities_strs:
  "list_all is_str es \<Longrightarrow>
   sql_entities fmt es stmts = stmts @ map create_table_text (map the_str es)"
proof (induction es arbitrary: stmts)
  case Nil
  show ?case by simp
next
  case (Cons e es)
  then show ?case
    by (cases e) (simp_all add: create_table_stmt_def create_table_text_def)
qed

lemma alter_table_stmt_relationship:
  "is_relationship rel \<Longrightarrow> alter_table_stmt lower fmt rel = Inr (alter_table_text lower rel)"
  by (simp add: is_relationship_def alter_table_stmt_def has_str_getitem alter_table_text_def)

lemma alter_table_stmt_unlabelled:
  "is_unlabelled_relationship rel \<Longrightarrow> field rel (str ''relation'') = None \<Longrightarrow>
   alter_table_stmt lower fmt rel = Inl (KeyError (str ''relation''))"
  by (simp add: is_unlabelled_relationship_def alter_table_stmt_def has_str_getitem
      no_field_getitem [of rel "(str ''from'')"])

lemma sql_relationships_texts:
  "list_all is_relationship rs \<Longrightarrow>
   sql_relationships lower fmt rs stmts = Inr (stmts @ map (alter_table_text lower) rs)"
proof (induction rs arbitrary: stmts)
  case Nil
  show ?case by simp
next
  case (Cons r rs)
  then show ?case by (simp add: alter_table_stmt_relationship)
qed

lemma sql_relationships_unlabelled:
  "list_all is_unlabelled_relationship rs \<Longrightarrow> \<exists>r\<in>set rs. field r (str ''relation'') = None \<Longrightarrow>
   sql_relationships lower fmt rs stmts = Inl (KeyError (str ''relation''))"
proof (induction rs arbitrary: stmts)
  case Nil
  then show ?case by simp
next
  case (Cons r rs)
  from Cons.prems have u: "is_unlabelled_relationship r" by simp
  show ?case
  proof (cases "field r (str ''relation'') = None")
    case True
    with u show ?thesis by (simp add: alter_table_stmt_unlabelled)
  next
    case False
    with u have "is_relationship r"
      by (auto simp: is_unlabelled_relationship_def is_relationship_def)
    moreover from False Cons.prems have "\<exists>r\<in>set rs. field r (str ''relation'') = None" by auto
    ultimately show ?thesis
      using Cons by (simp add: alter_table_stmt_relationship)
  qed
qed

lemma no_endpoint_getitem:
  "field rel key = None \<Longrightarrow> isl (getitem rel key)"
  by (cases rel) simp_all

lemma add_relationships_raises:
  "rel \<in> set rs \<Longrightarrow> field rel (str ''from'') = None \<or> field rel (str ''to'') = None \<Longrightarrow>
   isl (add_relationships rs dot)"
proof (induction rs arbitrary: dot)
  case Nil
  then show ?case by simp
next
  case (Cons r rs)
  show ?case
  proof (cases "r = rel")
    case True
    have "isl (getitem rel (str ''from'')) \<or> isl (getitem rel (str ''to''))"
      using Cons.prems(2) no_endpoint_getitem by blast
    with True show ?thesis
      by (auto intro!: isl_andthen)
  next
    case False
    with Cons.prems have "rel \<in> set rs" by simp
    with Cons show ?thesis
      by (auto intro!: isl_andthen)
  qed
qed

lemma alter_table_stmt_raises:
  "field rel (str ''from'') = None \<or> field rel (str ''to'') = None \<Longrightarrow> isl (alter_table_stmt lower fmt rel)"
proof -
  assume "field rel (str ''from'') = None \<or> field rel (str ''to'') = None"
  then have "isl (getitem rel (str ''from'')) \<or> isl (getitem rel (str ''to''))"
    using no_endpoint_getitem by blast
  then show ?thesis
    unfolding alter_table_stmt_def by (auto intro!: isl_andthen)
qed

lemma sql_relationships_raises:
  "rel \<in> set rs \<Longrightarrow> field rel (str ''from'') = None \<or> field rel (str ''to'') = None \<Longrightarrow>
   isl (sql_relationships lower fmt rs stmts)"
proof (induction rs arbitrary: stmts)
  case Nil
  then show ?case by simp
next
  case (Cons r rs)
  show ?case
  proof (cases "r = rel")
    case True
    with Cons.prems show ?thesis
      using alter_table_stmt_raises [of rel lower fmt] by (cases "alter_table_stmt lower fmt rel") auto
  next
    case False
    with Cons.prems have "rel \<in> set rs" by simp
    with Cons show ?thesis
      by (auto intro!: isl_andthen)
  qed
qed

section \<open>Fenced responses (C4)\<close>

text \<open>
  C4, as the programs have it. In the DOT variant, for content \<open>c\<close> that holds no fence
  marker and does not end in a backtick: the clean-up of \<open>c\<close> wrapped in fence markers,
  with the tag \<^verbatim>\<open>dot\<close> after the opening fence or (when \<open>c\<close> does not itself start with
  \<^verbatim>\<open>dot\<close>) with no tag, is the clean-up of \<open>c\<close> unwrapped, namely \<open>c\<close> stripped. In the
  structured variant, for content \<open>c\<close> whose whitespace at the two ends is JSON whitespace
  and a \<^verbatim>\<open>json.loads\<close> that skips JSON whitespace: \<^verbatim>\<open>generate_er_spec\<close> returns the same
  value for \<open>c\<close> wrapped in fence markers, with the tag \<^verbatim>\<open>json\<close> or (when \<open>c\<close> starts neither
  with \<^verbatim>\<open>json\<close> nor with a backtick) with no tag, as for \<open>c\<close> unwrapped.
\<close>

theorem clean_fenced_content:
  "(\<not> str_contains c fence \<and> (c = [] \<or> last c \<noteq> 96) \<longrightarrow>
      clean_dot c = Inr (str_strip c) \<and>
      clean_dot (fence @ str ''dot'' @ c @ fence) = clean_dot c \<and>
      (\<not> str_startswith c (str ''dot'') \<longrightarrow> clean_dot (fence @ c @ fence) = clean_dot c)) \<and>
   (skips_json_space loads \<and> json_space_ends c \<longrightarrow>
      snd (generate_er_spec (answering (fence @ str ''json'' @ c @ fence)) loads p) =
      snd (generate_er_spec (answering c) loads p) \<and>
      (\<not> str_startswith c (str ''json'') \<and> (c = [] \<or> hd c \<noteq> 96) \<longrightarrow>
         snd (generate_er_spec (answering (fence @ c @ fence)) loads p) =
         snd (generate_er_spec (answering c) loads p)))"
proof (intro conjI impI)
  assume a: "\<not> str_contains c fence \<and> (c = [] \<or> last c \<noteq> 96)"
  then have n: "\<not> str_contains c fence" and l: "c = [] \<or> last c \<noteq> 96"
    by simp_all
  from n show 1: "clean_dot c = Inr (str_strip c)" by (rule clean_dot_plain)
  from n l have "clean_dot (fence @ str ''dot'' @ c @ fence) = Inr (str_strip c)"
    by (rule clean_dot_tagged)
  with 1 show "clean_dot (fence @ str ''dot'' @ c @ fence) = clean_dot c" by simp
  assume "\<not> str_startswith c (str ''dot'')"
  with clean_dot_fenced [OF n l] 1 show "clean_dot (fence @ c @ fence) = clean_dot c"
    by simp
next
  assume b: "skips_json_space loads \<and> json_space_ends c"
  then have s: "skips_json_space loads" and e: "json_space_ends c" by simp_all
  from s e clean_json_tagged
  show "snd (generate_er_spec (answering (fence @ str ''json'' @ c @ fence)) loads p) =
        snd (generate_er_spec (answering c) loads p)"
    by (rule fenced_json_same_value)
  assume "\<not> str_startswith c (str ''json'') \<and> (c = [] \<or> hd c \<noteq> 96)"
  then have "clean_json (fence @ c @ fence) =
      str_replace (str_replace c (fence @ str ''json'') []) fence []"
    by (intro clean_json_untagged) simp_all
  with s e show "snd (generate_er_spec (answering (fence @ c @ fence)) loads p) =
        snd (generate_er_spec (answering c) loads p)"
    by (rule fenced_json_same_value)
qed

text \<open>The property at a DOT graph, and at a JSON object between two newlines, each wrapped
  with its tag and without.\<close>

theorem clean_fenced_content_witness:
  "clean_dot (str ''digraph G {}'') = Inr (str ''digraph G {}'') \<and>
   clean_dot (fence @ str ''dot'' @ str ''digraph G {}'' @ fence) = clean_dot (str ''digraph G {}'') \<and>
   clean_dot (fence @ str ''digraph G {}'' @ fence) = clean_dot (str ''digraph G {}'') \<and>
   snd (generate_er_spec (answering (str ''\<newline>{}\<newline>'')) example_loads (str ''a shop'')) = JDict [] \<and>
   snd (generate_er_spec (answering (fence @ str ''json'' @ str ''\<newline>{}\<newline>'' @ fence))
          example_loads (str ''a shop'')) =
     snd (generate_er_spec (answering (str ''\<newline>{}\<newline>'')) example_loads (str ''a shop'')) \<and>
   snd (generate_er_spec (answering (fence @ str ''\<newline>{}\<newline>'' @ fence))
          example_loads (str ''a shop'')) =
     snd (generate_er_spec (answering (str ''\<newline>{}\<newline>'')) example_loads (str ''a shop''))"
proof -
  have d: "\<not> str_contains (str ''digraph G {}'') fence \<and>
           (str ''digraph G {}'' = [] \<or> last (str ''digraph G {}'') \<noteq> 96) \<and>
           \<not> str_startswith (str ''digraph G {}'') (str ''dot'')"
    by (simp add: fence_def str_def str_startswith_def)
  have j: "json_space_ends (str ''\<newline>{}\<newline>'') \<and>
           \<not> str_startswith (str ''\<newline>{}\<newline>'') (str ''json'') \<and>
           (str ''\<newline>{}\<newline>'' = [] \<or> hd (str ''\<newline>{}\<newline>'') \<noteq> 96)"
    by (simp add: json_space_ends_def json_space_def str_isspace_def str_startswith_def str_def)
  have s: "str_strip (str ''digraph G {}'') = str ''digraph G {}''"
    by (simp add: str_strip_def str_isspace_def str_def)
  have v: "snd (generate_er_spec (answering (str ''\<newline>{}\<newline>'')) example_loads (str ''a shop'')) =
           JDict []"
    by (simp add: generate_er_spec_def answering_def clean_json_def str_strip_def
        str_isspace_def fence_def str_def example_loads_def json_strip_def json_space_def
        example_text_def)
  show ?thesis
    using clean_fenced_content [of "str ''digraph G {}''" example_loads "str ''a shop''"]
      clean_fenced_content [of "str ''\<newline>{}\<newline>''" example_loads "str ''a shop''"]
      d j s v example_loads_skips
    by simp
qed

text \<open>
  C4 as stated fails. In the DOT variant, content that ends in a backtick loses it when
  wrapped, content that holds a fence marker is cut at another place when wrapped, and
  content that starts with \<^verbatim>\<open>dot\<close> loses these letters when wrapped without a tag. In the
  structured variant, content that starts with a form feed is valid JSON once stripped
  but not as it stands between the markers, and content that starts with \<^verbatim>\<open>json\<close> or with
  a backtick can be valid JSON only when wrapped without a tag.
\<close>

theorem clean_fenced_content_counterexample:
  "clean_dot (fence @ str ''dot'' @ str ''x`'' @ fence) = Inr (str ''x'') \<and>
   clean_dot (str ''x`'') = Inr (str ''x`'') \<and>
   clean_dot (fence @ str ''dot'' @ str ''a```b'' @ fence) = Inr (str ''a'') \<and>
   clean_dot (str ''a```b'') = Inr (str ''b'') \<and>
   clean_dot (fence @ str ''dotty'' @ fence) = Inr (str ''ty'') \<and>
   clean_dot (str ''dotty'') = Inr (str ''dotty'') \<and>
   snd (generate_er_spec (answering (fence @ str ''json'' @ 12 # str ''{}'' @ fence))
          example_loads (str ''a shop'')) = empty_er_spec \<and>
   snd (generate_er_spec (answering (12 # str ''{}'')) example_loads (str ''a shop'')) = JDict [] \<and>
   snd (generate_er_spec (answering (fence @ str ''json{}'' @ fence))
          example_loads (str ''a shop'')) = JDict [] \<and>
   snd (generate_er_spec (answering (str ''json{}'')) example_loads (str ''a shop'')) =
     empty_er_spec \<and>
   snd (generate_er_spec (answering (fence @ str ''`json``{}'' @ fence))
          example_loads (str ''a shop'')) = JDict [] \<and>
   snd (generate_er_spec (answering (str ''`json``{}'')) example_loads (str ''a shop'')) =
     empty_er_spec \<and>
   JDict [] \<noteq> empty_er_spec"
  by (simp add: clean_dot_def str_split_def str_startswith_def generate_er_spec_def
      answering_def clean_json_def str_strip_def str_isspace_def fence_def str_def example_loads_def
      json_strip_def json_space_def example_text_def empty_er_spec_def)

section \<open>The empty response (C5)\<close>

lemma call_gemini_for_dot_empty:
  "provider (dot_request p) = Inr None \<or> provider (dot_request p) = Inr (Some []) \<Longrightarrow>
   snd (call_gemini_for_dot provider d p) =
     Inl (PyException (str ''Gemini returned an empty response.''))"
  by (auto simp: call_gemini_for_dot_def)

text \<open>
  C5 says that a call either raises the exception of the empty response or returns a
  text that is not empty. \<^verbatim>\<open>call_gemini_for_dot\<close> tests the response before it strips it
  and removes the fence: at a response of one space, and at a response that is a newline
  between two fence markers, the response is not empty, nothing is raised and the text
  returned is empty. The empty response itself does raise.
\<close>

theorem call_gemini_for_dot_blank_response:
  "str '' '' \<noteq> [] \<and>
   snd (call_gemini_for_dot (answering (str '' '')) 1 (str ''a shop'')) = Inr ([], 1) \<and>
   snd (call_gemini_for_dot (answering (fence @ 10 # fence)) 1 (str ''a shop'')) = Inr ([], 1) \<and>
   snd (call_gemini_for_dot (answering []) 1 (str ''a shop'')) =
     Inl (PyException (str ''Gemini returned an empty response.''))"
  by (simp add: answering_def call_gemini_for_dot_def clean_dot_def fence_def str_def str_strip_def
      str_isspace_def str_split_def str_startswith_def)

section \<open>The normalizer of the structured variant (C1)\<close>

text \<open>
  C1, as the program has it. When the provider raises, when the text of the response is
  \<^verbatim>\<open>None\<close>, or when \<^verbatim>\<open>json.loads\<close> raises on the cleaned text (the text is not valid JSON),
  \<^verbatim>\<open>generate_er_spec\<close> reports the exception with \<^verbatim>\<open>st.error\<close> and returns the empty ER
  Specification. When the cleaned text is valid JSON the parsed value is returned as it
  is, whatever its shape.
\<close>

theorem generate_er_spec_fallback:
  "(provider (er_request p) = Inl e \<or> provider (er_request p) = Inr None \<or>
    (provider (er_request p) = Inr (Some t) \<and> isl (loads (clean_json t))) \<longrightarrow>
      snd (generate_er_spec provider loads p) = empty_er_spec \<and>
      (\<exists>e'. fst (generate_er_spec provider loads p) =
         [Generate (er_request p), St_error (str ''Failed to process with Gemini: '') (Some e')])) \<and>
   (provider (er_request p) = Inr (Some t) \<and> loads (clean_json t) = Inr v \<longrightarrow>
      generate_er_spec provider loads p = ([Generate (er_request p)], v))"
  by (auto simp: generate_er_spec_def isl_def)

text \<open>The property at a response that is not JSON and at the response of the example.\<close>

theorem generate_er_spec_fallback_witness:
  "snd (generate_er_spec (answering (str ''Sorry, I cannot help.'')) example_loads (str ''a shop'')) =
     empty_er_spec \<and>
   generate_er_spec (answering example_text) example_loads (str ''a shop'') =
     ([Generate (er_request (str ''a shop''))], example_spec)"
proof -
  have 1: "answering (str ''Sorry, I cannot help.'') (er_request (str ''a shop'')) =
             Inr (Some (str ''Sorry, I cannot help.'')) \<and>
           isl (example_loads (clean_json (str ''Sorry, I cannot help.'')))"
    by (simp add: answering_def example_loads_def json_strip_def json_space_def
        example_text_def clean_json_def
        str_strip_def str_isspace_def fence_def str_def)
  have 2: "answering example_text (er_request (str ''a shop'')) = Inr (Some example_text) \<and>
           example_loads (clean_json example_text) = Inr example_spec"
    by (simp add: answering_def example_loads_def json_strip_def json_space_def
        example_text_def clean_json_def
        str_strip_def str_isspace_def fence_def str_def)
  show ?thesis
    using generate_er_spec_fallback [of "answering (str ''Sorry, I cannot help.'')" "(str ''a shop'')"
        undefined "(str ''Sorry, I cannot help.'')" example_loads undefined]
      generate_er_spec_fallback [of "answering example_text" "(str ''a shop'')"
        undefined example_text example_loads example_spec]
      1 2
    by blast
qed

text \<open>
  C1 as stated fails: the response \<^verbatim>\<open>[]\<close> is valid JSON that does not match the shape of
  an ER Specification, and \<^verbatim>\<open>generate_er_spec\<close> returns the parsed list, not the empty
  ER Specification.
\<close>

theorem generate_er_spec_fallback_counterexample:
  "example_loads (clean_json (str ''[]'')) = Inr (JList []) \<and> \<not> is_er_spec (JList []) \<and>
   snd (generate_er_spec (answering (str ''[]'')) example_loads (str ''a shop'')) = JList [] \<and>
   JList [] \<noteq> empty_er_spec"
  by (simp add: generate_er_spec_def answering_def example_loads_def json_strip_def
      json_space_def example_text_def clean_json_def str_strip_def str_isspace_def fence_def
      str_def is_er_spec_def has_lists_def empty_er_spec_def)

section \<open>Schema synthesis (C2)\<close>

text \<open>
  C2. For every ER Specification, \<^verbatim>\<open>generate_sql_schema\<close> returns a text fixed by the
  specification alone (the same input gives the same text): one \<^verbatim>\<open>CREATE TABLE\<close> statement
  per entity (an integer key column and a name column) in the order of the entities,
  then one statement per relationship in the order of the relationships, a comment
  naming the relation followed by an \<^verbatim>\<open>ALTER TABLE\<close> that adds to the \<^verbatim>\<open>from\<close> table the
  column named by the \<^verbatim>\<open>to\<close> entity in lower case (\<open>lower\<close> is Python's \<^verbatim>\<open>str.lower\<close>) and
  \<^verbatim>\<open>_id\<close>, a reference to the id of the \<^verbatim>\<open>to\<close> table; the statements are joined by an empty
  line.
\<close>

theorem generate_sql_schema_text:
  "is_er_spec er_data \<Longrightarrow>
   generate_sql_schema lower fmt er_data =
     Inr (str_join (str ''\<newline>\<newline>'')
           (map create_table_text (entity_names er_data) @
            map (alter_table_text lower) (relationships_of er_data)))"
  by (simp add: is_er_spec_def generate_sql_schema_def Let_def has_lists_dict_get
      sql_entities_strs sql_relationships_texts entity_names_def)

text \<open>The property at the example of the specification, Customer places Order, where
  lower case is that of the letters A to Z.\<close>

theorem generate_sql_schema_text_witness:
  "is_er_spec example_spec \<and>
   generate_sql_schema ascii_lower (\<lambda>v. []) example_spec =
     Inr ((str ''CREATE TABLE Customer (\<newline>    id INT PRIMARY KEY,\<newline>    name VARCHAR(100)\<newline>);'') @
          (str ''\<newline>\<newline>'') @
          (str ''CREATE TABLE Order (\<newline>    id INT PRIMARY KEY,\<newline>    name VARCHAR(100)\<newline>);'') @
          (str ''\<newline>\<newline>'') @
          (str ''-- Customer places Order\<newline>'') @
          (str ''ALTER TABLE Customer ADD COLUMN order_id INT REFERENCES Order(id);''))"
proof -
  have h: "is_er_spec example_spec"
    by (simp add: is_er_spec_def has_lists_def example_spec_def entities_of_def
        relationships_of_def is_relationship_def has_str_def)
  show ?thesis
    using h generate_sql_schema_text [OF h, of ascii_lower "\<lambda>v. []"]
    by (simp add: example_spec_def entity_names_def entities_of_def relationships_of_def
        create_table_text_def alter_table_text_def str_field_def ascii_lower_def str_def)
qed

section \<open>The diagram renderer (C3, C8, C9)\<close>

lemma count_entity_node:
  "distinct names \<Longrightarrow> name \<in> set names \<Longrightarrow>
   count_list (map entity_node names @ map relationship_edge rels) (entity_node name) = 1"
proof -
  assume d: "distinct names" and m: "name \<in> set names"
  have "inj entity_node"
    by (rule injI) (simp add: entity_node_def)
  then have "count_list (map entity_node names) (entity_node name) = count_list names name"
    by (rule count_list_map_conv)
  also from d m have "count_list names name = 1"
    by (induction names) auto
  finally have 1: "count_list (map entity_node names) (entity_node name) = 1" .
  have "entity_node name \<notin> set (map relationship_edge rels)"
    by (auto simp: entity_node_def relationship_edge_def)
  then have "count_list (map relationship_edge rels) (entity_node name) = 0"
    by (rule count_notin)
  with 1 show ?thesis by simp
qed

text \<open>
  C3. For every well-formed ER Specification (distinct entity names) \<^verbatim>\<open>create_er_diagram\<close>
  returns a graph whose body is the box-shaped nodes of the entities, each named and
  labelled with the entity name and occurring exactly once, followed by one edge per
  relationship entry, from its \<^verbatim>\<open>from\<close> entity to its \<^verbatim>\<open>to\<close> entity and labelled with its
  relation, in the order of the relationships.
\<close>

theorem create_er_diagram_nodes_edges:
  "well_formed er_data \<Longrightarrow>
   \<exists>dot. create_er_diagram er_data = Inr dot \<and>
     body dot = map entity_node (entity_names er_data) @
                map relationship_edge (relationships_of er_data) \<and>
     (\<forall>name\<in>set (entity_names er_data). count_list (body dot) (entity_node name) = 1)"
proof -
  assume w: "well_formed er_data"
  then have "list_all is_unlabelled_relationship (relationships_of er_data)"
    by (simp add: well_formed_def is_er_spec_def list_all_iff is_relationship_unlabelled)
  with w have "create_er_diagram er_data =
      Inr \<lparr>comment = (str ''ER Diagram''), graph_attr = [((str ''rankdir''), (str ''LR''))],
           body = map entity_node (entity_names er_data) @
                  map relationship_edge (relationships_of er_data)\<rparr>"
    by (simp add: well_formed_def is_er_spec_def create_er_diagram_body)
  moreover from w have "distinct (entity_names er_data)"
    by (simp add: well_formed_def)
  ultimately show ?thesis
    by (simp add: count_entity_node del: count_list_append)
qed

text \<open>The property at the example of the specification: two nodes and one edge.\<close>

theorem create_er_diagram_nodes_edges_witness:
  "well_formed example_spec \<and>
   (\<exists>dot. create_er_diagram example_spec = Inr dot \<and>
      body dot = [entity_node (str ''Customer''), entity_node (str ''Order''),
                  Edge (str ''Customer'') (str ''Order'') (Some (str ''places''))] \<and>
      count_list (body dot) (entity_node (str ''Customer'')) = 1 \<and>
      count_list (body dot) (entity_node (str ''Order'')) = 1)"
proof -
  have h: "well_formed example_spec"
    by (simp add: well_formed_def is_er_spec_def has_lists_def example_spec_def entities_of_def
        relationships_of_def is_relationship_def has_str_def entity_names_def)
  show ?thesis
    using h create_er_diagram_nodes_edges [OF h]
    by (simp add: example_spec_def entity_names_def entities_of_def relationships_of_def
        relationship_edge_def str_field_def)
qed

text \<open>
  C8. For every ER Specification with a relationship whose \<^verbatim>\<open>from\<close> or \<^verbatim>\<open>to\<close> names no
  entity, \<^verbatim>\<open>create_er_diagram\<close> raises nothing and the edge of that relationship is in
  the graph, while the nodes are those of the entities only: the endpoint is not checked
  against the entities.
\<close>

theorem create_er_diagram_dangling_edge:
  "is_er_spec er_data \<Longrightarrow> rel \<in> set (relationships_of er_data) \<Longrightarrow>
   str_field rel (str ''from'') \<notin> set (entity_names er_data) \<or>
   str_field rel (str ''to'') \<notin> set (entity_names er_data) \<Longrightarrow>
   \<exists>dot. create_er_diagram er_data = Inr dot \<and>
     Edge (str_field rel (str ''from'')) (str_field rel (str ''to'')) (Some (str_field rel (str ''relation'')))
       \<in> set (body dot) \<and>
     filter is_node (body dot) = map entity_node (entity_names er_data)"
proof -
  assume s: "is_er_spec er_data" and r: "rel \<in> set (relationships_of er_data)"
  from s have "list_all is_unlabelled_relationship (relationships_of er_data)"
    by (simp add: is_er_spec_def list_all_iff is_relationship_unlabelled)
  with s have "create_er_diagram er_data =
      Inr \<lparr>comment = (str ''ER Diagram''), graph_attr = [((str ''rankdir''), (str ''LR''))],
           body = map entity_node (entity_names er_data) @
                  map relationship_edge (relationships_of er_data)\<rparr>"
    by (simp add: is_er_spec_def create_er_diagram_body)
  moreover have "filter is_node (map entity_node names) = map entity_node names" for names
    by (induction names) (simp_all add: entity_node_def)
  moreover have "filter is_node (map relationship_edge rels) = []" for rels
    by (induction rels) (simp_all add: relationship_edge_def)
  moreover from r have "relationship_edge rel \<in> set (map relationship_edge (relationships_of er_data))"
    by simp
  ultimately show ?thesis
    by (simp add: relationship_edge_def)
qed

text \<open>The property at a specification whose only relationship points at an entity that
  is not declared.\<close>

theorem create_er_diagram_dangling_edge_witness:
  "\<exists>dot. create_er_diagram
          (JDict [((str ''entities''), JList [JStr (str ''Customer'')]),
                  ((str ''relationships''),
                   JList [JDict [((str ''from''), JStr (str ''Customer'')), ((str ''to''), JStr (str ''Order'')),
                                 ((str ''relation''), JStr (str ''places''))]])]) = Inr dot \<and>
     Edge (str ''Customer'') (str ''Order'') (Some (str ''places'')) \<in> set (body dot) \<and>
     filter is_node (body dot) = [entity_node (str ''Customer'')]"
  using create_er_diagram_dangling_edge
    [of "JDict [((str ''entities''), JList [JStr (str ''Customer'')]),
                ((str ''relationships''),
                 JList [JDict [((str ''from''), JStr (str ''Customer'')), ((str ''to''), JStr (str ''Order'')),
                               ((str ''relation''), JStr (str ''places''))]])]"
        "JDict [((str ''from''), JStr (str ''Customer'')), ((str ''to''), JStr (str ''Order'')),
                ((str ''relation''), JStr (str ''places''))]"]
  by (simp add: is_er_spec_def has_lists_def entities_of_def relationships_of_def
      is_relationship_def has_str_def entity_names_def str_field_def)

text \<open>
  C9. A relationship entry without the key \<^verbatim>\<open>relation\<close>, in a specification that is
  otherwise of the right shape: \<^verbatim>\<open>create_er_diagram\<close> returns a graph with the edge of the
  entry, labelled with the empty string, and \<^verbatim>\<open>generate_sql_schema\<close> raises
  \<^verbatim>\<open>KeyError('relation')\<close>. A relationship entry without \<^verbatim>\<open>from\<close> or without \<^verbatim>\<open>to\<close>: both
  functions raise.
\<close>

theorem missing_relationship_keys:
  "(has_lists er_data \<and> list_all is_str (entities_of er_data) \<and>
    list_all is_unlabelled_relationship (relationships_of er_data) \<and>
    rel \<in> set (relationships_of er_data) \<and> field rel (str ''relation'') = None \<longrightarrow>
      (\<exists>dot. create_er_diagram er_data = Inr dot \<and>
         Edge (str_field rel (str ''from'')) (str_field rel (str ''to'')) (Some []) \<in> set (body dot)) \<and>
      generate_sql_schema lower fmt er_data = Inl (KeyError (str ''relation''))) \<and>
   (field er_data (str ''relationships'') = Some (JList rels) \<and> entry \<in> set rels \<and>
    (field entry (str ''from'') = None \<or> field entry (str ''to'') = None) \<longrightarrow>
      isl (create_er_diagram er_data) \<and> isl (generate_sql_schema lower fmt er_data))"
proof (intro conjI impI)
  assume a: "has_lists er_data \<and> list_all is_str (entities_of er_data) \<and>
    list_all is_unlabelled_relationship (relationships_of er_data) \<and>
    rel \<in> set (relationships_of er_data) \<and> field rel (str ''relation'') = None"
  then have "create_er_diagram er_data =
      Inr \<lparr>comment = (str ''ER Diagram''), graph_attr = [((str ''rankdir''), (str ''LR''))],
           body = map entity_node (entity_names er_data) @
                  map relationship_edge (relationships_of er_data)\<rparr>"
    by (simp add: create_er_diagram_body)
  moreover from a have "relationship_edge rel \<in> set (map relationship_edge (relationships_of er_data))"
    by simp
  moreover from a have "relationship_edge rel =
      Edge (str_field rel (str ''from'')) (str_field rel (str ''to'')) (Some [])"
    by (simp add: relationship_edge_def no_field_str_field)
  ultimately show "\<exists>dot. create_er_diagram er_data = Inr dot \<and>
      Edge (str_field rel (str ''from'')) (str_field rel (str ''to'')) (Some []) \<in> set (body dot)"
    by simp
  from a have "\<exists>r\<in>set (relationships_of er_data). field r (str ''relation'') = None"
    by blast
  with a show "generate_sql_schema lower fmt er_data = Inl (KeyError (str ''relation''))"
    by (simp add: generate_sql_schema_def Let_def has_lists_dict_get
        sql_relationships_unlabelled)
next
  assume b: "field er_data (str ''relationships'') = Some (JList rels) \<and> entry \<in> set rels \<and>
    (field entry (str ''from'') = None \<or> field entry (str ''to'') = None)"
  then obtain d where d: "er_data = JDict d" "map_of d (str ''relationships'') = Some (JList rels)"
    by (cases er_data) simp_all
  from b have m: "entry \<in> set rels"
    and n: "field entry (str ''from'') = None \<or> field entry (str ''to'') = None"
    by simp_all
  have 1: "isl (add_relationships rels dot)" for dot
    using m n by (rule add_relationships_raises)
  have 2: "isl (sql_relationships lower fmt rels stmts)" for stmts
    using m n by (rule sql_relationships_raises)
  show "isl (create_er_diagram er_data)"
    unfolding create_er_diagram_def Let_def
    by (intro isl_andthen) (use d 1 in auto)
  have 3: "sql_relationships lower fmt rels stmts \<noteq> Inr x" for stmts x
    using 2 [of stmts] by auto
  show "isl (generate_sql_schema lower fmt er_data)"
    unfolding generate_sql_schema_def Let_def
    by (intro isl_andthen) (use d 3 in auto)
qed

text \<open>The property at a specification whose relationship has no relation, and at one
  whose relationship has no target.\<close>

theorem missing_relationship_keys_witness:
  "(\<exists>dot. create_er_diagram
           (JDict [((str ''entities''), JList [JStr (str ''Customer''), JStr (str ''Order'')]),
                   ((str ''relationships''),
                    JList [JDict [((str ''from''), JStr (str ''Customer'')), ((str ''to''), JStr (str ''Order''))]])])
           = Inr dot \<and>
      Edge (str ''Customer'') (str ''Order'') (Some []) \<in> set (body dot)) \<and>
   generate_sql_schema ascii_lower (\<lambda>v. [])
     (JDict [((str ''entities''), JList [JStr (str ''Customer''), JStr (str ''Order'')]),
             ((str ''relationships''),
              JList [JDict [((str ''from''), JStr (str ''Customer'')), ((str ''to''), JStr (str ''Order''))]])])
     = Inl (KeyError (str ''relation'')) \<and>
   isl (create_er_diagram
          (JDict [((str ''entities''), JList [JStr (str ''Customer'')]),
                  ((str ''relationships''), JList [JDict [((str ''from''), JStr (str ''Customer''))]])])) \<and>
   isl (generate_sql_schema ascii_lower (\<lambda>v. [])
          (JDict [((str ''entities''), JList [JStr (str ''Customer'')]),
                  ((str ''relationships''), JList [JDict [((str ''from''), JStr (str ''Customer''))]])]))"
  using missing_relationship_keys
    [of "JDict [((str ''entities''), JList [JStr (str ''Customer''), JStr (str ''Order'')]),
                ((str ''relationships''),
                 JList [JDict [((str ''from''), JStr (str ''Customer'')), ((str ''to''), JStr (str ''Order''))]])]"
        "JDict [((str ''from''), JStr (str ''Customer'')), ((str ''to''), JStr (str ''Order''))]"
        ascii_lower "\<lambda>v. []"
        "[JDict [((str ''from''), JStr (str ''Customer'')), ((str ''to''), JStr (str ''Order''))]]"
        "JDict [((str ''from''), JStr (str ''Customer'')), ((str ''to''), JStr (str ''Order''))]"]
    missing_relationship_keys
    [of "JDict [((str ''entities''), JList [JStr (str ''Customer'')]),
                ((str ''relationships''), JList [JDict [((str ''from''), JStr (str ''Customer''))]])]"
        "JDict [((str ''from''), JStr (str ''Customer''))]"
        ascii_lower "\<lambda>v. []"
        "[JDict [((str ''from''), JStr (str ''Customer''))]]"
        "JDict [((str ''from''), JStr (str ''Customer''))]"]
  by (simp add: has_lists_def entities_of_def relationships_of_def
      is_unlabelled_relationship_def has_str_def str_field_def)

section \<open>The handlers (C6)\<close>

lemma render_block_no_generate: "Generate request \<notin> set (fst (render_block engine edited update s))"
  by (simp add: render_block_def Let_def split: option.splits)

text \<open>
  The effects record the calls of the provider: a description that is not blank, with the
  button pressed (and, in the DOT variant, no cached result), does reach the provider.
\<close>

lemma generate_er_spec_generates:
  "Generate (er_request user_input) \<in> set (fst (generate_er_spec provider loads user_input))"
  by (simp add: generate_er_spec_def Let_def split: sum.splits)

lemma nonblank_description_generates:
  assumes "button" "str_strip user_input \<noteq> []"
  shows "Generate (er_request user_input) \<in>
         set (fst (generate_visualization provider loads lower fmt engine button user_input))"
  using assms generate_er_spec_generates [of user_input provider loads]
  by (auto simp: generate_visualization_def split: prod.splits sum.splits option.splits)

lemma nonblank_description_generates_dot:
  assumes "button" "str_strip user_input \<noteq> []" "cached s user_input = None"
  shows "Generate (dot_request user_input) \<in>
         set (fst (generate_branch provider duration dumps faults button user_input s))"
  using assms
  by (auto simp: generate_branch_def cached_call_gemini_for_dot_def call_gemini_for_dot_def
      Let_def split: prod.splits sum.splits option.splits bool.splits)

text \<open>
  C6. When the description is empty or all whitespace, neither handler calls the
  provider: the handler of the structured variant shows its warning and does nothing
  else, the generate branch of the DOT variant does nothing at all, and no run of either
  page has a call of the provider among its effects.
\<close>

theorem blank_description_no_generation:
  "\<forall>c\<in>set user_input. str_isspace c \<Longrightarrow>
   generate_visualization provider loads lower fmt engine button user_input =
     (if button then [St_warning (str ''Please enter a description.'')] else [], None) \<and>
   generate_branch provider duration dumps faults button user_input s = ([], s) \<and>
   (\<forall>request. Generate request \<notin>
      set (fst (generate_visualization provider loads lower fmt engine button user_input))) \<and>
   (\<forall>request. Generate request \<notin>
      set (fst (main_app provider duration dumps faults engine button user_input edited update s)))"
proof -
  assume "\<forall>c\<in>set user_input. str_isspace c"
  then have e: "str_strip user_input = []" by (simp add: strip_empty_iff)
  then have 1: "generate_visualization provider loads lower fmt engine button user_input =
      (if button then [St_warning (str ''Please enter a description.'')] else [], None)"
    by (simp add: generate_visualization_def)
  from e have 2: "generate_branch provider duration dumps faults button user_input s = ([], s)"
    by (simp add: generate_branch_def)
  have 3: "Generate request \<notin>
      set (fst (main_app provider duration dumps faults engine button user_input edited update s))"
    for request
    using render_block_no_generate [of request engine edited update s]
    by (simp add: main_app_def 2 split: prod.splits)
  from 1 2 3 show ?thesis by simp
qed

text \<open>The property at a description of a space, a no-break space and an ideographic space,
  with the buttons pressed, in a logged-in session without a diagram.\<close>

theorem blank_description_no_generation_witness:
  "str_strip [32, 160, 12288] = [] \<and>
   generate_visualization (answering example_text) example_loads ascii_lower (\<lambda>v. [])
     (\<lambda>chart. None) True [32, 160, 12288] =
     ([St_warning (str ''Please enter a description.'')], None) \<and>
   fst (main_app (answering (str ''digraph G {}'')) 1 (\<lambda>t. t) (\<lambda>step. None) (\<lambda>chart. None) True [32, 160, 12288] [] False
          \<lparr>logged_in = True, user_id = Some 1, last_dot = None, cached = Map.empty,
           db = \<lparr>users = [], projects = [], logs = []\<rparr>\<rparr>) = []"
proof -
  have h: "\<forall>c\<in>set [32, 160, 12288]. str_isspace c"
    by (simp add: str_isspace_def)
  have "fst (main_app (answering (str ''digraph G {}'')) 1 (\<lambda>t. t) (\<lambda>step. None) (\<lambda>chart. None) True [32, 160, 12288] [] False
          \<lparr>logged_in = True, user_id = Some 1, last_dot = None, cached = Map.empty,
           db = \<lparr>users = [], projects = [], logs = []\<rparr>\<rparr>) = []"
    using blank_description_no_generation [OF h, of "answering (str ''digraph G {}'')" undefined
        undefined undefined undefined True 1 "\<lambda>t. t" "\<lambda>step. None"
        "\<lparr>logged_in = True, user_id = Some 1, last_dot = None, cached = Map.empty,
           db = \<lparr>users = [], projects = [], logs = []\<rparr>\<rparr>"]
    by (simp add: main_app_def render_block_def)
  then show ?thesis
    using h blank_description_no_generation [OF h, of "answering example_text" example_loads
        ascii_lower "\<lambda>v. []" "\<lambda>chart. None" True]
    by (simp add: strip_empty_iff)
qed

section \<open>Account creation (C10)\<close>

lemma le_fold_max: "a \<le> fold max ids (a::nat)"
proof (induction ids arbitrary: a)
  case Nil
  show ?case by simp
next
  case (Cons i ids)
  have "a \<le> max i a" by simp
  also have "\<dots> \<le> fold max ids (max i a)" by (rule Cons.IH)
  finally show ?case by simp
qed

lemma member_le_fold_max: "i \<in> set ids \<Longrightarrow> i \<le> fold max ids (a::nat)"
proof (induction ids arbitrary: a)
  case Nil
  then show ?case by simp
next
  case (Cons j ids)
  show ?case
  proof (cases "i = j")
    case True
    have "i \<le> max i a" by simp
    also have "\<dots> \<le> fold max ids (max i a)" by (rule le_fold_max)
    finally show ?thesis using True by simp
  next
    case False
    with Cons show ?thesis by simp
  qed
qed

lemma next_id_fresh: "next_id ids \<notin> set ids"
proof
  assume "next_id ids \<in> set ids"
  then have "next_id ids \<le> fold max ids 0" by (rule member_le_fold_max)
  then show False by (simp add: next_id_def)
qed

text \<open>
  C10. \<^verbatim>\<open>create_user\<close> returns \<^verbatim>\<open>True\<close> exactly when the connection, both inserts and the
  commit succeed. Then the committed database has gained exactly two rows, the user row
  (under an id no other user has) and one project row named \<^verbatim>\<open>My First ERD Project\<close>
  owned by that user, by the one commit that follows both inserts. When it returns
  \<^verbatim>\<open>False\<close> the committed database is unchanged.
\<close>

theorem create_user_atomic:
  "create_user faults hash_password d email password = (effs, ok, d') \<Longrightarrow>
   (ok \<longleftrightarrow> faults Connect = None \<and> faults Insert_user = None \<and> faults Insert_project = None \<and>
      faults Commit = None \<and> email \<notin> set (map u_email (users d))) \<and>
   (ok \<longrightarrow>
      (\<exists>uid pid.
         uid \<notin> set (map u_id (users d)) \<and>
         users d' = users d @
           [\<lparr>u_id = uid, u_email = email, u_password_hash = hash_password password\<rparr>] \<and>
         projects d' = projects d @
           [\<lparr>p_id = pid, p_user_id = uid, p_name = (str ''My First ERD Project''),
             p_description = (str ''Default workspace'')\<rparr>] \<and>
         logs d' = logs d) \<and>
      effs = [Db Connect, Db Insert_user, Db Insert_project, Db Commit, Db_close]) \<and>
   (\<not> ok \<longrightarrow> d' = d)"
  using next_id_fresh [of "map u_id (users d)"]
  by (auto simp: create_user_def get_connection_def insert_user_def insert_project_def Let_def
      split: option.splits if_splits)

text \<open>The property at the first account of an empty database, and at a second account
  with the same email.\<close>

theorem create_user_atomic_witness:
  "create_user (\<lambda>step. None) (\<lambda>p. (str ''5e88'')) \<lparr>users = [], projects = [], logs = []\<rparr>
     (str ''ann@example.org'') (str ''password'') =
     ([Db Connect, Db Insert_user, Db Insert_project, Db Commit, Db_close], True,
      \<lparr>users = [\<lparr>u_id = 1, u_email = (str ''ann@example.org''), u_password_hash = (str ''5e88'')\<rparr>],
       projects = [\<lparr>p_id = 1, p_user_id = 1, p_name = (str ''My First ERD Project''),
                    p_description = (str ''Default workspace'')\<rparr>],
       logs = []\<rparr>) \<and>
   snd (create_user (\<lambda>step. None) (\<lambda>p. (str ''5e88''))
          \<lparr>users = [\<lparr>u_id = 1, u_email = (str ''ann@example.org''), u_password_hash = (str ''5e88'')\<rparr>],
           projects = [], logs = []\<rparr>
          (str ''ann@example.org'') (str ''secret'')) =
     (False, \<lparr>users = [\<lparr>u_id = 1, u_email = (str ''ann@example.org''), u_password_hash = (str ''5e88'')\<rparr>],
              projects = [], logs = []\<rparr>)"
proof -
  have 1: "create_user (\<lambda>step. None) (\<lambda>p. (str ''5e88'')) \<lparr>users = [], projects = [], logs = []\<rparr>
     (str ''ann@example.org'') (str ''password'') =
     ([Db Connect, Db Insert_user, Db Insert_project, Db Commit, Db_close], True,
      \<lparr>users = [\<lparr>u_id = 1, u_email = (str ''ann@example.org''), u_password_hash = (str ''5e88'')\<rparr>],
       projects = [\<lparr>p_id = 1, p_user_id = 1, p_name = (str ''My First ERD Project''),
                    p_description = (str ''Default workspace'')\<rparr>],
       logs = []\<rparr>)"
    by (simp add: create_user_def get_connection_def insert_user_def insert_project_def
        next_id_def)
  obtain effs ok d' where 2: "create_user (\<lambda>step. None) (\<lambda>p. (str ''5e88''))
          \<lparr>users = [\<lparr>u_id = 1, u_email = (str ''ann@example.org''), u_password_hash = (str ''5e88'')\<rparr>],
           projects = [], logs = []\<rparr>
          (str ''ann@example.org'') (str ''secret'') = (effs, ok, d')"
    by (metis prod_cases3)
  from create_user_atomic [OF 2] have "\<not> ok" by simp
  with create_user_atomic [OF 2] have "d' = \<lparr>users = [\<lparr>u_id = 1, u_email = (str ''ann@example.org''), u_password_hash = (str ''5e88'')\<rparr>],
           projects = [], logs = []\<rparr>"
    by simp
  with \<open>\<not> ok\<close> 2 1 create_user_atomic [OF 1] show ?thesis by simp
qed


end
